theory Spec2Isabelle
  imports Main
begin

section \<open>Incoming-call ingestion route (backend/routes/incomingCalls.js)\<close>

text \<open>
  A shallow embedding of the Express router that receives PBX webhooks, keeps a bounded
  in-memory history, and pushes each call to the open event streams.

  Conventions of the model:
  \<^item> A JavaScript string is a \<open>string\<close>; each \<open>char\<close> is one code unit. The model is
    exact for strings whose code units are all below 256, a set closed under every string
    operation the router uses (\<open>trim\<close>, \<open>toLowerCase\<close>, \<open>replace\<close>, \<open>slice\<close>).
  \<^item> A JavaScript value found in a request (body field, query parameter, header) is a
    \<open>jsval\<close>. A number is given by the text \<open>String\<close> prints for it.
  \<^item> What a statement throws is a value: a function that can throw returns a sum, with the
    error on the left.
  \<^item> Module-level variables are the fields of the record \<open>state\<close>; every function that
    assigns one takes the state and returns the new one.
  \<^item> \<open>db.query\<close> belongs to the module \<open>../db\<close>; the functions that call it take it as the
    parameter \<open>db_query\<close>, acting on a store of any type.
  \<^item> A request handler runs from its first statement to its response without another
    handler in between, and a promise is observed only once it has settled.
\<close>

subsection \<open>JavaScript values and built-ins\<close>

text \<open>
  \<open>JObj\<close> lists the own properties of a plain object, each key once; \<open>JArr\<close> the
  elements of an array. \<open>JNum\<close> carries the text that \<open>String\<close> prints for the number
  (\<open>40712345678\<close>, \<open>1.5\<close>, \<open>1e+21\<close>, \<open>NaN\<close>): the router does nothing with a number of a
  request but test its truthiness and convert it to a string, and the text determines both.
  The numbers 0 and -0 both print \<open>0\<close>.
\<close>

datatype jsval =
    JUndefined
  | JNull
  | JBool bool
  | JNum string
  | JStr string
  | JArr "jsval list"
  | JObj "(string \<times> jsval) list"

text \<open>Truthiness (\<open>ToBoolean\<close>): what \<open>!v\<close>, \<open>v || w\<close> and \<open>v ? a : b\<close> test.\<close>

fun truthy :: "jsval \<Rightarrow> bool" where
  "truthy JUndefined = False"
| "truthy JNull = False"
| "truthy (JBool b) = b"
| "truthy (JNum printed) = (printed \<noteq> ''0'' \<and> printed \<noteq> ''NaN'')"
| "truthy (JStr s) = (s \<noteq> [])"
| "truthy (JArr xs) = True"
| "truthy (JObj kvs) = True"

text \<open>\<open>v == null\<close>: true of \<open>null\<close> and \<open>undefined\<close> only. \<open>a ?? b\<close> is \<open>b\<close> exactly then.\<close>

fun nullish :: "jsval \<Rightarrow> bool" where
  "nullish JUndefined = True"
| "nullish JNull = True"
| "nullish v = False"

definition coalesce :: "jsval \<Rightarrow> jsval \<Rightarrow> jsval" where
  "coalesce a b = (if nullish a then b else a)"

definition js_or :: "jsval \<Rightarrow> jsval \<Rightarrow> jsval" where
  "js_or a b = (if truthy a then a else b)"

text \<open>
  Decimal notation of an integer: what \<open>String\<close> prints for the ids of the store and for
  the counter \<open>sequence\<close>.
\<close>

definition digit_char :: "nat \<Rightarrow> char" where
  "digit_char d = ''0123456789'' ! (d mod 10)"

fun string_of_nat :: "nat \<Rightarrow> string" where
  "string_of_nat n =
     (if n < 10 then [digit_char n] else string_of_nat (n div 10) @ [digit_char (n mod 10)])"

definition string_of_int :: "int \<Rightarrow> string" where
  "string_of_int i = (if i < 0 then CHR ''-'' # string_of_nat (nat (- i)) else string_of_nat (nat i))"

text \<open>\<open>Array.prototype.join\<close> with a comma, on elements already converted.\<close>

fun join_comma :: "string list \<Rightarrow> string" where
  "join_comma [] = []"
| "join_comma [s] = s"
| "join_comma (s # t # ts) = s @ '','' @ join_comma (t # ts)"

text \<open>What a statement of the router can throw: the \<open>TypeError\<close> of a conversion to a
  string, and the error of a \<open>res.write\<close>.\<close>

datatype js_error = TypeError | WriteError

text \<open>The converted elements of an array, or the first error met on the way.\<close>

fun all_or_error :: "(js_error + string) list \<Rightarrow> js_error + string list" where
  "all_or_error [] = Inr []"
| "all_or_error (Inl e # rs) = Inl e"
| "all_or_error (Inr s # rs) = (case all_or_error rs of Inl e \<Rightarrow> Inl e | Inr ss \<Rightarrow> Inr (s # ss))"

text \<open>
  \<open>String(v)\<close>. A plain object prints as \<open>[object Object]\<close> through the \<open>toString\<close> it
  inherits; with an own property \<open>toString\<close>, which in a parsed request is never a
  function, neither that nor the inherited \<open>valueOf\<close> yields a primitive and the
  conversion throws a \<open>TypeError\<close>. An array prints its elements joined by commas, \<open>null\<close>
  and \<open>undefined\<close> elements as nothing, and throws when an element does.
\<close>

fun String :: "jsval \<Rightarrow> js_error + string" where
  "String JUndefined = Inr ''undefined''"
| "String JNull = Inr ''null''"
| "String (JBool b) = Inr (if b then ''true'' else ''false'')"
| "String (JNum printed) = Inr printed"
| "String (JStr s) = Inr s"
| "String (JArr xs) =
     (case all_or_error (map (\<lambda>x. if nullish x then Inr [] else String x) xs) of
        Inl e \<Rightarrow> Inl e
      | Inr ss \<Rightarrow> Inr (join_comma ss))"
| "String (JObj kvs) =
     (case map_of kvs ''toString'' of
        None \<Rightarrow> Inr ''[object Object]''
      | Some v \<Rightarrow> Inl TypeError)"

text \<open>
  White space and line terminators below code unit 256: TAB, LF, VT, FF, CR, SPACE and
  NO-BREAK SPACE. \<open>trim\<close> removes them at both ends.
\<close>

definition isWhiteSpace :: "char \<Rightarrow> bool" where
  "isWhiteSpace c = (c \<in> set [CHR 0x09, CHR 0x0A, CHR 0x0B, CHR 0x0C, CHR 0x0D, CHR 0x20, CHR 0xA0])"

definition trimStart :: "string \<Rightarrow> string" where
  "trimStart s = dropWhile isWhiteSpace s"

definition trim :: "string \<Rightarrow> string" where
  "trim s = rev (dropWhile isWhiteSpace (rev (dropWhile isWhiteSpace s)))"

text \<open>
  \<open>toLowerCase\<close> below code unit 256: \<open>A\<close>..\<open>Z\<close> and the capital letters \<open>0xC0\<close>..\<open>0xDE\<close>
  (not the multiplication sign \<open>0xD7\<close>) move up by 32; every other code unit stays.
\<close>

definition toLowerChar :: "char \<Rightarrow> char" where
  "toLowerChar c =
     (let n = (of_char c :: nat)
      in if (65 \<le> n \<and> n \<le> 90) \<or> (192 \<le> n \<and> n \<le> 222 \<and> n \<noteq> 215)
         then char_of (n + 32) else c)"

definition toLowerCase :: "string \<Rightarrow> string" where
  "toLowerCase s = map toLowerChar s"

text \<open>The class \<open>\d\<close> of a regular expression without flags: the ten ASCII digits.\<close>

definition isDigit :: "char \<Rightarrow> bool" where
  "isDigit c = (c \<in> set ''0123456789'')"

subsection \<open>Normalizer\<close>

definition STATUS_LABELS :: "string set" where
  "STATUS_LABELS = {''ringing'', ''answered'', ''missed'', ''rejected''}"

definition normalizeStatus :: "jsval \<Rightarrow> js_error + string" where
  "normalizeStatus rawStatus =
     (if \<not> truthy rawStatus then Inr ''ringing''
      else case String rawStatus of
             Inl e \<Rightarrow> Inl e
           | Inr printed \<Rightarrow>
              (let status = toLowerCase (trim printed)
               in if status \<in> STATUS_LABELS then Inr status
                  else if status = ''no_answer'' \<or> status = ''noanswer'' then Inr ''missed''
                  else Inr ''ringing''))"

record phone_result =
  display :: string
  digits :: string

definition sanitizePhone :: "jsval \<Rightarrow> js_error + phone_result" where
  "sanitizePhone rawValue =
     (if nullish rawValue then Inr \<lparr>display = [], digits = []\<rparr>
      else case String rawValue of
             Inl e \<Rightarrow> Inl e
           | Inr printed \<Rightarrow>
              (let str = trim printed
               in if str = [] then Inr \<lparr>display = [], digits = []\<rparr>
                  else let digits0 = filter isDigit str;
                           startsWithPlus = (take 1 str = ''+'')
                       in if digits0 = [] then Inr \<lparr>display = [], digits = []\<rparr>
                          else let digits1 = (if length digits0 > 20 then take 20 digits0 else digits0);
                                   display1 = (if startsWithPlus then ''+'' @ digits1 else digits1)
                               in Inr \<lparr>display = display1, digits = digits1\<rparr>))"

text \<open>\<open>escapeLike\<close>: a backslash before each backslash, percent sign and underscore.\<close>

definition escapeLike :: "string \<Rightarrow> string" where
  "escapeLike str = concat (map (\<lambda>ch. if ch \<in> set [CHR 0x5C, CHR ''%'', CHR ''_''] then [CHR 0x5C, ch] else [ch]) str)"

subsection \<open>Data: rows, call events, the store, subscribers\<close>

type_synonym timestamp = nat

text \<open>
  A row of \<open>incoming_calls\<close>, typed by the \<open>CREATE TABLE\<close> statement: \<open>id\<close> is
  \<open>BIGINT UNSIGNED NOT NULL\<close>, \<open>phone\<close> is \<open>NOT NULL\<close>, the other text columns may be
  \<open>NULL\<close>; \<open>person_id\<close> is the number or \<open>null\<close> the driver returns.
\<close>

record row =
  row_id :: nat
  row_phone :: string
  row_digits :: "string option"
  row_extension :: "string option"
  row_source :: "string option"
  row_status :: "string option"
  row_note :: "string option"
  row_caller_name :: "string option"
  row_person_id :: jsval
  row_received_at :: timestamp

text \<open>The event object kept in memory and sent to subscribers; \<open>meta\<close> is flattened.\<close>

record callEvent =
  ev_id :: string
  ev_phone :: string
  ev_digits :: "string option"
  ev_extension :: "string option"
  ev_source :: "string option"
  ev_status :: "string option"
  ev_note :: "string option"
  ev_received_at :: timestamp
  meta_callerName :: "string option"
  meta_personId :: jsval

text \<open>
  \<open>db.query(sql, params)\<close>: the four statements of the router, the parameter array, and
  the settled outcome: rejection with an error, or a result object with \<open>rows\<close> (possibly
  \<open>undefined\<close>) and \<open>insertId\<close> (possibly \<open>undefined\<close>). A parameter is a value taken
  from the request, the constant \<open>MAX_HISTORY\<close>, or the \<open>Date\<close> of reception.
\<close>

datatype sql = CREATE_TABLE | SELECT_RECENT | INSERT_CALL | SELECT_LOG

datatype dbparam = PJs jsval | PNat nat | PDate timestamp

type_synonym dberror = string

record dbresult =
  rows :: "row list option"
  insertId :: "nat option"

type_synonym 'db dbquery = "sql \<Rightarrow> dbparam list \<Rightarrow> 'db \<Rightarrow> (dberror + dbresult) \<times> 'db"

text \<open>A settled \<open>readyPromise\<close>.\<close>

datatype promise = Fulfilled | Rejected dberror

text \<open>
  What is written to an event stream: the retry hint, the keep-alive comment, and the
  \<open>call\<close> frame, whose text is determined by the event (\<open>id\<close> line and JSON data).
\<close>

datatype frame = RetryFrame | KeepAliveFrame | CallFrame callEvent

text \<open>
  A response object as a stream sink: \<open>failing\<close> tells whether \<open>res.write\<close> throws,
  \<open>out\<close> is what has been written. Response objects live in a heap indexed by address.
\<close>

record sink =
  failing :: bool
  out :: "frame list"

text \<open>
  The object \<open>{ res, heartbeat }\<close>. \<open>lid\<close> is the identity of the object (what membership
  in the \<open>Set\<close> compares), \<open>res\<close> the address of its response object, \<open>heartbeat\<close> the
  handle of its interval timer once set.
\<close>

record listener =
  lid :: nat
  res :: nat
  heartbeat :: "nat option"

text \<open>
  The module's variables, then the runtime objects they refer to: the heap of response
  objects, the active interval timers, and the next unused object identity. \<open>listeners\<close> is
  a \<open>Set\<close>: a list in insertion order without repeated identities.
\<close>

record state =
  listeners :: "listener list"
  lastCall :: "callEvent option"
  sequence :: nat
  secretWarningLogged :: bool
  callHistory :: "callEvent list"
  readyPromise :: "promise option"
  sinks :: "nat \<Rightarrow> sink"
  timers :: "nat set"
  fresh :: nat

definition MAX_HISTORY :: nat where
  "MAX_HISTORY = 500"

definition initial :: state where
  "initial = \<lparr>listeners = [], lastCall = None, sequence = 0, secretWarningLogged = False,
              callHistory = [], readyPromise = None,
              sinks = (\<lambda>r. \<lparr>failing = False, out = []\<rparr>), timers = {}, fresh = 0\<rparr>"

subsection \<open>One-time initialization\<close>

definition eventOfRow :: "row \<Rightarrow> callEvent" where
  "eventOfRow r =
     \<lparr>ev_id = string_of_nat (row_id r), ev_phone = row_phone r, ev_digits = row_digits r,
      ev_extension = row_extension r, ev_source = row_source r, ev_status = row_status r,
      ev_note = row_note r, ev_received_at = row_received_at r,
      meta_callerName = row_caller_name r,
      meta_personId = row_person_id r\<rparr>"

text \<open>
  The \<open>for\<close> loop over the rows: push the event, raise \<open>sequence\<close> to the row's id
  (\<open>Number(row.id) || 0\<close> is the id itself).
\<close>

primrec bootstrap :: "row list \<Rightarrow> callEvent list \<times> nat \<Rightarrow> callEvent list \<times> nat" where
  "bootstrap [] acc = acc"
| "bootstrap (r # rs) acc = bootstrap rs (fst acc @ [eventOfRow r], max (snd acc) (row_id r))"

text \<open>
  \<open>ensurePersistenceReady\<close>: with \<open>readyPromise\<close> unset, run the initialization and keep
  its promise; otherwise return the promise kept. The result is the settled promise.
\<close>

definition ensurePersistenceReady :: "'db dbquery \<Rightarrow> state \<times> 'db \<Rightarrow> promise \<times> state \<times> 'db" where
  "ensurePersistenceReady db_query sd =
     (case sd of (s, db) \<Rightarrow>
      (case readyPromise s of
         Some p \<Rightarrow> (p, s, db)
       | None \<Rightarrow>
          (case db_query CREATE_TABLE [] db of
             (Inl err, db1) \<Rightarrow> (Rejected err, s\<lparr>readyPromise := Some (Rejected err)\<rparr>, db1)
           | (Inr created, db1) \<Rightarrow>
              (case db_query SELECT_RECENT [PNat MAX_HISTORY] db1 of
                 (Inl err, db2) \<Rightarrow> (Rejected err, s\<lparr>readyPromise := Some (Rejected err)\<rparr>, db2)
               | (Inr selected, db2) \<Rightarrow>
                  (let rs = (case rows selected of None \<Rightarrow> [] | Some rs \<Rightarrow> rs);
                       (hist, seq) = bootstrap rs ([], sequence s);
                       last = (case hist of [] \<Rightarrow> lastCall s | e # es \<Rightarrow> Some e)
                   in (Fulfilled,
                       s\<lparr>callHistory := hist, sequence := seq, lastCall := last,
                         readyPromise := Some Fulfilled\<rparr>,
                       db2))))))"

subsection \<open>Subscriber registry, broadcaster, history ring\<close>

text \<open>\<open>res.write(payload)\<close> on the response object at address \<open>r\<close>: throws or appends.\<close>

definition res_write :: "nat \<Rightarrow> frame \<Rightarrow> state \<Rightarrow> js_error + state" where
  "res_write r payload s =
     (if failing (sinks s r) then Inl WriteError
      else Inr (s\<lparr>sinks := (sinks s)(r := (sinks s r)\<lparr>out := out (sinks s r) @ [payload]\<rparr>)\<rparr>))"

text \<open>
  \<open>cleanupListener\<close>: nothing for a missing listener; otherwise \<open>clearInterval\<close> on the
  heartbeat when the listener has one (a timer handle is an object, hence truthy), then
  \<open>listeners.delete\<close>, which removes the listener with that identity.
\<close>

fun cleanupListener :: "listener option \<Rightarrow> state \<Rightarrow> state" where
  "cleanupListener None s = s"
| "cleanupListener (Some l) s =
     (let s1 = (case heartbeat l of None \<Rightarrow> s | Some t \<Rightarrow> s\<lparr>timers := timers s - {t}\<rparr>)
      in s1\<lparr>listeners := filter (\<lambda>x. lid x \<noteq> lid l) (listeners s1)\<rparr>)"

text \<open>
  The body shared by the loop of \<open>broadcast\<close> and the heartbeat callback:
  \<open>try { listener.res.write(payload) } catch (err) { cleanupListener(listener) }\<close>.
\<close>

definition write_or_cleanup :: "frame \<Rightarrow> listener \<Rightarrow> state \<Rightarrow> state" where
  "write_or_cleanup payload l s =
     (case res_write (res l) payload s of
        Inl err \<Rightarrow> cleanupListener (Some l) s
      | Inr s1 \<Rightarrow> s1)"

text \<open>The loop of \<open>broadcast\<close> over the snapshot \<open>Array.from(listeners)\<close>.\<close>

fun broadcast_loop :: "frame \<Rightarrow> listener list \<Rightarrow> state \<Rightarrow> state" where
  "broadcast_loop payload [] s = s"
| "broadcast_loop payload (l # ls) s = broadcast_loop payload ls (write_or_cleanup payload l s)"

definition broadcast :: "callEvent \<Rightarrow> state \<Rightarrow> state" where
  "broadcast event s = broadcast_loop (CallFrame event) (listeners s) s"

text \<open>\<open>storeInHistory\<close> on the array: \<open>unshift\<close>, then \<open>pop\<close> when over capacity.\<close>

definition storeInHistory :: "'a \<Rightarrow> 'a list \<Rightarrow> 'a list" where
  "storeInHistory entry h =
     (let h1 = entry # h in if length h1 > MAX_HISTORY then butlast h1 else h1)"

subsection \<open>Requests and responses\<close>

text \<open>
  What a handler reads of a request: the header \<open>x-pbx-secret\<close> (a string or
  \<open>undefined\<close>), the parsed body and query, and whether the session layer set \<open>req.user\<close>.
\<close>

record request =
  header_secret :: jsval
  body :: jsval
  query :: jsval
  user :: bool

datatype payload = Success | Error string | Call "callEvent option" | EventStream

datatype response = Json nat payload

text \<open>
  \<open>obj?.key\<close>: \<open>undefined\<close> when \<open>obj\<close> is \<open>null\<close> or \<open>undefined\<close> or has no such property;
  none of the keys the router reads exists on a string, a number or an array.
\<close>

fun get :: "jsval \<Rightarrow> string \<Rightarrow> jsval" where
  "get (JObj kvs) key = (case map_of kvs key of None \<Rightarrow> JUndefined | Some v \<Rightarrow> v)"
| "get v key = JUndefined"

text \<open>\<open>s || null\<close> on a string that may be \<open>null\<close>, as a query parameter.\<close>

fun or_null :: "string option \<Rightarrow> string option" where
  "or_null None = None"
| "or_null (Some s) = (if s = [] then None else Some s)"

fun param :: "string option \<Rightarrow> jsval" where
  "param None = JNull"
| "param (Some s) = JStr s"

subsection \<open>Ingestion endpoint\<close>

definition providedSecret :: "request \<Rightarrow> jsval" where
  "providedSecret req =
     js_or (js_or (header_secret req) (get (body req) ''secret'')) (get (query req) ''secret'')"

text \<open>
  The secret check. \<open>expectedSecret\<close> is the environment variable, unset or a string; the
  request passes when no non-empty secret is configured or the provided one is that string.
\<close>

fun authorized :: "string option \<Rightarrow> request \<Rightarrow> bool" where
  "authorized None req = True"
| "authorized (Some expected) req =
     (if expected \<noteq> []
      then \<not> (\<not> truthy (providedSecret req) \<or> providedSecret req \<noteq> JStr expected)
      else True)"

text \<open>The argument of \<open>sanitizePhone\<close>: \<open>phone ?? caller ?? number ?? ''\<close>.\<close>

definition rawPhone :: "request \<Rightarrow> jsval" where
  "rawPhone req =
     coalesce (coalesce (coalesce (get (body req) ''phone'') (get (body req) ''caller''))
                        (get (body req) ''number''))
              (JStr [])"

definition extension :: "request \<Rightarrow> js_error + string option" where
  "extension req =
     (if \<not> nullish (get (body req) ''extension'')
      then (case String (get (body req) ''extension'') of
              Inl e \<Rightarrow> Inl e
            | Inr printed \<Rightarrow> Inr (Some (trim printed)))
      else Inr None)"

definition source :: "request \<Rightarrow> js_error + string option" where
  "source req =
     (if \<not> nullish (get (body req) ''source'')
      then (case String (get (body req) ''source'') of
              Inl e \<Rightarrow> Inl e
            | Inr printed \<Rightarrow> Inr (Some (trim printed)))
      else Inr None)"

definition note_text :: "request \<Rightarrow> string option" where
  "note_text req = (case get (body req) ''note'' of JStr s \<Rightarrow> Some (trim s) | _ \<Rightarrow> None)"

definition callerName :: "request \<Rightarrow> string option" where
  "callerName req = (case get (body req) ''name'' of JStr s \<Rightarrow> or_null (Some (trim s)) | _ \<Rightarrow> None)"

definition personId :: "request \<Rightarrow> jsval" where
  "personId req = coalesce (get (body req) ''person_id'') JNull"

text \<open>
  The locals of the handler once the request has been read: \<open>{ display, digits }\<close>,
  \<open>extension\<close>, \<open>source\<close>, \<open>status\<close>, \<open>note\<close> and the two fields of \<open>meta\<close>.
\<close>

record call_fields =
  c_phone :: phone_result
  c_extension :: "string option"
  c_source :: "string option"
  c_status :: string
  c_note :: "string option"
  c_callerName :: "string option"
  c_personId :: jsval

text \<open>
  Lines 157 to 173 of the handler, in their order: the phone, the check that answers 400
  (\<open>None\<close>), then extension, source and status. These statements stand before the
  \<open>try\<close> block: an error thrown by one of them ends the handler.
\<close>

definition readCall :: "request \<Rightarrow> js_error + call_fields option" where
  "readCall req =
     (case sanitizePhone (rawPhone req) of
        Inl e \<Rightarrow> Inl e
      | Inr ph \<Rightarrow>
         if display ph = [] \<and> digits ph = [] then Inr None
         else
          (case extension req of
             Inl e \<Rightarrow> Inl e
           | Inr ext \<Rightarrow>
              (case source req of
                 Inl e \<Rightarrow> Inl e
               | Inr src \<Rightarrow>
                  (case normalizeStatus (get (body req) ''status'') of
                     Inl e \<Rightarrow> Inl e
                   | Inr st \<Rightarrow>
                      Inr (Some \<lparr>c_phone = ph, c_extension = ext, c_source = src,
                                 c_status = st, c_note = note_text req,
                                 c_callerName = callerName req,
                                 c_personId = personId req\<rparr>)))))"

text \<open>\<open>display || digits\<close>.\<close>

definition phoneText :: "phone_result \<Rightarrow> string" where
  "phoneText ph = (if display ph \<noteq> [] then display ph else digits ph)"

text \<open>The parameter array of the \<open>INSERT\<close>; \<open>receivedAt\<close> is the clock reading \<open>now\<close>.\<close>

definition insertParams :: "timestamp \<Rightarrow> call_fields \<Rightarrow> dbparam list" where
  "insertParams now c =
     [PJs (JStr (phoneText (c_phone c))), PJs (param (or_null (Some (digits (c_phone c))))),
      PJs (param (or_null (c_extension c))), PJs (param (or_null (c_source c))),
      PJs (JStr (c_status c)), PJs (param (or_null (c_note c))),
      PJs (param (c_callerName c)), PJs (c_personId c), PDate now]"

text \<open>
  The numeric id of the new entry and the counter after \<open>++sequence\<close>: the store's
  \<open>insertId\<close> when it is truthy, the incremented counter otherwise.
\<close>

definition assignId :: "dbresult \<Rightarrow> nat \<Rightarrow> nat \<times> nat" where
  "assignId insertRes seq =
     (case insertId insertRes of
        None \<Rightarrow> (seq + 1, seq + 1)
      | Some n \<Rightarrow> if n \<noteq> 0 then (n, seq) else (seq + 1, seq + 1))"

definition entry :: "string \<Rightarrow> timestamp \<Rightarrow> call_fields \<Rightarrow> callEvent" where
  "entry ident now c =
     \<lparr>ev_id = ident, ev_phone = phoneText (c_phone c), ev_digits = Some (digits (c_phone c)),
      ev_extension = or_null (c_extension c), ev_source = or_null (c_source c),
      ev_status = Some (c_status c), ev_note = or_null (c_note c), ev_received_at = now,
      meta_callerName = c_callerName c, meta_personId = c_personId c\<rparr>"

text \<open>
  The branch taken when no secret is configured: the warning is logged once, and
  \<open>secretWarningLogged\<close> set.
\<close>

definition after_warning :: "string option \<Rightarrow> state \<Rightarrow> state" where
  "after_warning expectedSecret s =
     (if (case expectedSecret of None \<Rightarrow> False | Some e \<Rightarrow> e \<noteq> []) then s
      else if \<not> secretWarningLogged s then s\<lparr>secretWarningLogged := True\<rparr>
      else s)"

text \<open>
  \<open>router.post('/')\<close>. The result is the response sent, or the error thrown out of the
  handler, after which no response is sent. \<open>id\<close> is \<open>String(n)\<close> for the numeric id \<open>n\<close>
  of \<open>assignId\<close>, so \<open>Number(id) || sequence\<close> is \<open>n\<close>, or \<open>sequence\<close> should \<open>n\<close> be 0.
\<close>

definition post :: "'db dbquery \<Rightarrow> string option \<Rightarrow> timestamp \<Rightarrow> request \<Rightarrow> state \<times> 'db
                      \<Rightarrow> (js_error + response) \<times> state \<times> 'db" where
  "post db_query expectedSecret now req sd =
     (case ensurePersistenceReady db_query sd of
        (Rejected err, s1, db1) \<Rightarrow> (Inr (Json 500 (Error ''server error'')), s1, db1)
      | (Fulfilled, s1, db1) \<Rightarrow>
         if \<not> authorized expectedSecret req
         then (Inr (Json 401 (Error ''invalid secret'')), s1, db1)
         else
          (let s2 = after_warning expectedSecret s1
           in case readCall req of
                Inl e \<Rightarrow> (Inl e, s2, db1)
              | Inr None \<Rightarrow> (Inr (Json 400 (Error ''phone missing'')), s2, db1)
              | Inr (Some c) \<Rightarrow>
                 (case db_query INSERT_CALL (insertParams now c) db1 of
                    (Inl err, db2) \<Rightarrow> (Inr (Json 500 (Error ''server error'')), s2, db2)
                  | (Inr insertRes, db2) \<Rightarrow>
                     (let (n, seq1) = assignId insertRes (sequence s2);
                          seq2 = max seq1 (if n \<noteq> 0 then n else seq1);
                          e = entry (string_of_nat n) now c;
                          s3 = s2\<lparr>sequence := seq2,
                                  callHistory := storeInHistory e (callHistory s2),
                                  lastCall := Some e\<rparr>
                      in (Inr (Json 200 Success), broadcast e s3, db2)))))"

subsection \<open>Stream, last-known and log endpoints\<close>

text \<open>
  \<open>router.get('/stream')\<close> for the response object at address \<open>r\<close>. The two writes
  stand outside any \<open>try\<close>: the error of one of them is thrown out of the handler.
\<close>

definition get_stream :: "'db dbquery \<Rightarrow> nat \<Rightarrow> request \<Rightarrow> state \<times> 'db
                            \<Rightarrow> (js_error + response) \<times> state \<times> 'db" where
  "get_stream db_query r req sd =
     (case sd of (s, db) \<Rightarrow>
      if \<not> user req then (Inr (Json 401 (Error ''auth required'')), s, db)
      else
       (case ensurePersistenceReady db_query (s, db) of
          (Rejected err, s1, db1) \<Rightarrow> (Inr (Json 500 (Error ''server error'')), s1, db1)
        | (Fulfilled, s1, db1) \<Rightarrow>
           (case res_write r RetryFrame s1 of
              Inl e \<Rightarrow> (Inl e, s1, db1)
            | Inr s2 \<Rightarrow>
               (let l = \<lparr>lid = fresh s2, res = r, heartbeat = Some (fresh s2)\<rparr>;
                    s3 = s2\<lparr>timers := insert (fresh s2) (timers s2),
                            listeners := listeners s2 @ [l],
                            fresh := fresh s2 + 1\<rparr>
                in (case lastCall s3 of
                      None \<Rightarrow> (Inr (Json 200 EventStream), s3, db1)
                    | Some e \<Rightarrow>
                       (case res_write r (CallFrame e) s3 of
                          Inl err \<Rightarrow> (Inl err, s3, db1)
                        | Inr s4 \<Rightarrow> (Inr (Json 200 EventStream), s4, db1)))))))"

text \<open>The callback of the heartbeat timer of listener \<open>l\<close>.\<close>

definition heartbeat_tick :: "listener \<Rightarrow> state \<Rightarrow> state" where
  "heartbeat_tick l s = write_or_cleanup KeepAliveFrame l s"

definition get_last :: "'db dbquery \<Rightarrow> request \<Rightarrow> state \<times> 'db \<Rightarrow> response \<times> state \<times> 'db" where
  "get_last db_query req sd =
     (case sd of (s, db) \<Rightarrow>
      if \<not> user req then (Json 401 (Error ''auth required''), s, db)
      else
       (case ensurePersistenceReady db_query (s, db) of
          (Rejected err, s1, db1) \<Rightarrow> (Json 500 (Error ''server error''), s1, db1)
        | (Fulfilled, s1, db1) \<Rightarrow> (Json 200 (Call (lastCall s1)), s1, db1)))"

text \<open>
  \<open>parseInt(v, 10)\<close>: convert to a string, which may throw; then skip leading white space,
  read a sign and the longest run of decimal digits; \<open>None\<close> is \<open>NaN\<close> (no digit found).
\<close>

definition digit_val :: "char \<Rightarrow> nat" where
  "digit_val c = of_char c - 48"

definition nat_of_digits :: "string \<Rightarrow> nat" where
  "nat_of_digits z = foldl (\<lambda>a c. 10 * a + digit_val c) 0 z"

definition parseInt_text :: "string \<Rightarrow> int option" where
  "parseInt_text printed =
     (let s = trimStart printed;
          negative = (take 1 s = ''-'');
          s1 = (if take 1 s = ''-'' \<or> take 1 s = ''+'' then drop 1 s else s);
          z = takeWhile isDigit s1
      in if z = [] then None
         else Some (if negative then - int (nat_of_digits z) else int (nat_of_digits z)))"

definition parseInt :: "jsval \<Rightarrow> js_error + int option" where
  "parseInt v = (case String v of Inl e \<Rightarrow> Inl e | Inr printed \<Rightarrow> Inr (parseInt_text printed))"

text \<open>
  The \<open>limit\<close> of \<open>router.get('/log')\<close>, passed to the store as the last parameter of the
  \<open>SELECT\<close>: \<open>Math.max(1, Math.min(Number.parseInt(req.query?.limit, 10) || 100, MAX_HISTORY))\<close>.
  \<open>NaN\<close> and 0 are the falsy numbers. The statement stands outside any \<open>try\<close>.
\<close>

definition limit :: "request \<Rightarrow> js_error + int" where
  "limit req =
     (case parseInt (get (query req) ''limit'') of
        Inl e \<Rightarrow> Inl e
      | Inr parsed \<Rightarrow>
         Inr (max 1 (min (case parsed of
                            None \<Rightarrow> 100
                          | Some n \<Rightarrow> if n \<noteq> 0 then n else 100)
                         (int MAX_HISTORY))))"

subsection \<open>Serving requests; a scripted store\<close>

text \<open>The ingestion endpoint serving a list of requests, one after another.\<close>

fun serve_posts :: "'db dbquery \<Rightarrow> string option \<Rightarrow> (timestamp \<times> request) list \<Rightarrow> state \<times> 'db
                      \<Rightarrow> (js_error + response) list \<times> state \<times> 'db" where
  "serve_posts db_query expectedSecret [] sd = ([], sd)"
| "serve_posts db_query expectedSecret (nr # reqs) sd =
     (case post db_query expectedSecret (fst nr) (snd nr) sd of
        (r, sd1) \<Rightarrow>
          (case serve_posts db_query expectedSecret reqs sd1 of
             (rs, sd2) \<Rightarrow> (r # rs, sd2)))"

text \<open>
  A store for the examples: it answers each query with the next outcome of a script and
  logs the query. With the script used up, every query succeeds with an empty result.
\<close>

type_synonym script = "(dberror + dbresult) list \<times> (sql \<times> dbparam list) list"

definition scripted :: "script dbquery" where
  "scripted q params db =
     (case fst db of
        [] \<Rightarrow> (Inr \<lparr>rows = None, insertId = None\<rparr>, ([], snd db @ [(q, params)]))
      | outcome # outcomes \<Rightarrow> (outcome, (outcomes, snd db @ [(q, params)])))"

definition done_ok :: "dberror + dbresult" where
  "done_ok = Inr \<lparr>rows = None, insertId = None\<rparr>"

text \<open>Example data: a stored row, a webhook call, two subscribers of which the first is broken.\<close>

definition row1 :: row where
  "row1 = \<lparr>row_id = 7, row_phone = ''+40712345678'', row_digits = Some ''40712345678'',
           row_extension = None, row_source = Some ''pbx'', row_status = Some ''missed'',
           row_note = None, row_caller_name = None, row_person_id = JNull,
           row_received_at = 1000\<rparr>"

definition call1 :: request where
  "call1 = \<lparr>header_secret = JUndefined,
            body = JObj [(''phone'', JStr ''+40 712 345 678''), (''status'', JStr ''Ringing'')],
            query = JObj [], user = False\<rparr>"

definition event1 :: callEvent where
  "event1 = eventOfRow row1"

definition two_listeners :: state where
  "two_listeners =
     initial\<lparr>listeners := [\<lparr>lid = 0, res = 10, heartbeat = Some 0\<rparr>,
                              \<lparr>lid = 1, res = 11, heartbeat = Some 1\<rparr>],
             sinks := (\<lambda>r. \<lparr>failing = (r = 10), out = [RetryFrame]\<rparr>),
             timers := {0, 1}, fresh := 2\<rparr>"

definition log_request :: "jsval \<Rightarrow> request" where
  "log_request q = \<lparr>header_secret = JUndefined, body = JUndefined, query = q, user = True\<rparr>"

definition ring_event :: "nat \<Rightarrow> callEvent" where
  "ring_event i = event1\<lparr>ev_id := string_of_nat i, ev_received_at := i\<rparr>"

definition demo_script :: "(dberror + dbresult) list" where
  "demo_script = [done_ok, Inr \<lparr>rows = Some [row1], insertId = None\<rparr>, Inl ''insert failed'']"

definition demo_ready :: state where
  "demo_ready = two_listeners\<lparr>callHistory := [event1], sequence := 7, lastCall := Some event1,
                              readyPromise := Some Fulfilled\<rparr>"

definition empty_phone_call :: request where
  "empty_phone_call = \<lparr>header_secret = JUndefined,
                        body = JObj [(''phone'', JStr ''''), (''caller'', JStr ''0712345678'')],
                        query = JObj [], user = False\<rparr>"

definition caller_only_call :: request where
  "caller_only_call = \<lparr>header_secret = JUndefined,
                        body = JObj [(''phone'', JNull), (''caller'', JStr ''0712345678'')],
                        query = JObj [], user = False\<rparr>"

text \<open>The front of the ring: \<open>callHistory[0]\<close>, or nothing when the ring is empty.\<close>

definition mostRecent :: "callEvent list \<Rightarrow> callEvent option" where
  "mostRecent h = (case h of [] \<Rightarrow> None | e # es \<Rightarrow> Some e)"

definition demo_script_ok :: "(dberror + dbresult) list" where
  "demo_script_ok = [done_ok, Inr \<lparr>rows = Some [row1], insertId = None\<rparr>,
                     Inr \<lparr>rows = None, insertId = Some 8\<rparr>]"

definition demo_served :: "(js_error + response) list \<times> state \<times> script" where
  "demo_served =
     serve_posts scripted None [(2000, call1)]
       (demo_ready, ([Inr \<lparr>rows = None, insertId = Some 8\<rparr>],
                     [(CREATE_TABLE, []), (SELECT_RECENT, [PNat 500])]))"

definition call1_fields :: call_fields where
  "call1_fields = \<lparr>c_phone = \<lparr>display = ''+40712345678'', digits = ''40712345678''\<rparr>,
                    c_extension = None, c_source = None, c_status = ''ringing'', c_note = None,
                    c_callerName = None, c_personId = JNull\<rparr>"

section \<open>Properties\<close>

subsection \<open>Conversion to a string\<close>

lemma all_or_error_Inl: "all_or_error rs = Inl e \<Longrightarrow> Inl e \<in> set rs"
  by (induction rs rule: all_or_error.induct) (auto split: sum.splits)

lemma all_or_error_Inr: "Inl e \<in> set rs \<Longrightarrow> \<exists>e'. all_or_error rs = Inl e'"
  by (induction rs rule: all_or_error.induct) (auto split: sum.splits)

lemma String_error: "String v = Inl e \<Longrightarrow> e = TypeError"
proof (induction v arbitrary: e rule: String.induct)
  case (6 xs)
  from "6.prems" have "all_or_error (map (\<lambda>x. if nullish x then Inr [] else String x) xs) = Inl e"
    by (simp split: sum.splits)
  then have "Inl e \<in> set (map (\<lambda>x. if nullish x then Inr [] else String x) xs)"
    by (rule all_or_error_Inl)
  then obtain x where "x \<in> set xs" "\<not> nullish x" "String x = Inl e"
    by (auto split: if_splits)
  with "6.IH" show ?case by blast
next
  case (7 kvs)
  then show ?case by (simp split: option.splits)
qed simp_all

text \<open>
  Which conversions throw: none of a primitive; that of an object exactly when it has an
  own property \<open>toString\<close>; that of an array exactly when that of an element throws which
  is neither \<open>null\<close> nor \<open>undefined\<close>.
\<close>

lemma String_throws:
  "(String v = Inl TypeError \<longrightarrow> (\<exists>kvs. v = JObj kvs) \<or> (\<exists>xs. v = JArr xs))
   \<and> (\<forall>kvs. v = JObj kvs \<longrightarrow> (String v = Inl TypeError \<longleftrightarrow> map_of kvs ''toString'' \<noteq> None))
   \<and> (\<forall>xs. v = JArr xs \<longrightarrow>
         (String v = Inl TypeError \<longleftrightarrow> (\<exists>x \<in> set xs. \<not> nullish x \<and> String x = Inl TypeError)))"
proof -
  have a: "String v = Inl TypeError \<Longrightarrow> (\<exists>kvs. v = JObj kvs) \<or> (\<exists>xs. v = JArr xs)"
    by (cases v) simp_all
  have b: "String (JObj kvs) = Inl TypeError \<longleftrightarrow> map_of kvs ''toString'' \<noteq> None" for kvs
    by (simp split: option.splits)
  have c: "String (JArr xs) = Inl TypeError
             \<longleftrightarrow> (\<exists>x \<in> set xs. \<not> nullish x \<and> String x = Inl TypeError)" for xs
  proof
    assume t: "String (JArr xs) = Inl TypeError"
    then have "all_or_error (map (\<lambda>x. if nullish x then Inr [] else String x) xs) = Inl TypeError"
      by (simp split: sum.splits)
    then have "Inl TypeError \<in> set (map (\<lambda>x. if nullish x then Inr [] else String x) xs)"
      by (rule all_or_error_Inl)
    then show "\<exists>x \<in> set xs. \<not> nullish x \<and> String x = Inl TypeError"
      by (auto split: if_splits)
  next
    assume "\<exists>x \<in> set xs. \<not> nullish x \<and> String x = Inl TypeError"
    then have "Inl TypeError \<in> set (map (\<lambda>x. if nullish x then Inr [] else String x) xs)"
      by (force simp add: image_iff)
    then obtain e where "all_or_error (map (\<lambda>x. if nullish x then Inr [] else String x) xs) = Inl e"
      using all_or_error_Inr by blast
    then have "String (JArr xs) = Inl e" by simp
    with String_error [of "JArr xs" e] show "String (JArr xs) = Inl TypeError" by simp
  qed
  from a b c show ?thesis by blast
qed

lemma String_throws_truthy: "String v = Inl e \<Longrightarrow> truthy v \<and> \<not> nullish v"
  by (cases v) simp_all

subsection \<open>Normalizer\<close>

lemma filter_dropWhile_disjoint:
  "(\<And>c. W c \<Longrightarrow> \<not> P c) \<Longrightarrow> filter P (dropWhile W xs) = filter P xs"
  by (induction xs) auto

lemma whitespace_not_digit: "isWhiteSpace c \<Longrightarrow> \<not> isDigit c"
  by (auto simp: isWhiteSpace_def isDigit_def)

lemma filter_isDigit_trim: "filter isDigit (trim s) = filter isDigit s"
proof -
  have "filter isDigit (trim s) =
          rev (filter isDigit (dropWhile isWhiteSpace (rev (dropWhile isWhiteSpace s))))"
    by (simp add: trim_def rev_filter)
  also have "\<dots> = rev (filter isDigit (rev (dropWhile isWhiteSpace s)))"
    by (simp add: filter_dropWhile_disjoint whitespace_not_digit)
  also have "\<dots> = filter isDigit (dropWhile isWhiteSpace s)"
    by (simp add: rev_filter)
  also have "\<dots> = filter isDigit s"
    by (simp add: filter_dropWhile_disjoint whitespace_not_digit)
  finally show ?thesis .
qed

lemma sanitizePhone_nullish:
  "nullish v \<Longrightarrow> sanitizePhone v = Inr \<lparr>display = [], digits = []\<rparr>"
  by (simp add: sanitizePhone_def)

lemma sanitizePhone_throws:
  "\<not> nullish v \<Longrightarrow> String v = Inl e \<Longrightarrow> sanitizePhone v = Inl e"
  by (simp add: sanitizePhone_def)

lemma sanitizePhone_empty:
  assumes "\<not> nullish v" and "String v = Inr printed" and "filter isDigit printed = []"
  shows "sanitizePhone v = Inr \<lparr>display = [], digits = []\<rparr>"
proof -
  from assms(3) have "filter isDigit (trim printed) = []"
    by (simp only: filter_isDigit_trim)
  then show ?thesis
    unfolding sanitizePhone_def Let_def using assms(1,2)
    by (simp only: if_True if_False refl simp_thms sum.case split: if_splits)
qed

lemma sanitizePhone_digits:
  assumes "\<not> nullish v" and "String v = Inr printed" and "filter isDigit printed \<noteq> []"
  shows "sanitizePhone v =
           Inr \<lparr>display = (if take 1 (trim printed) = ''+''
                            then ''+'' @ take 20 (filter isDigit printed)
                            else take 20 (filter isDigit printed)),
                digits = take 20 (filter isDigit printed)\<rparr>"
proof -
  have f: "filter isDigit (trim printed) = filter isDigit printed"
    by (rule filter_isDigit_trim)
  have ne: "trim printed \<noteq> []"
  proof
    assume "trim printed = []"
    then have "filter isDigit (trim printed) = []" by (simp only: filter.simps)
    with f assms(3) show False by simp
  qed
  have t: "(if 20 < length (filter isDigit printed) then take 20 (filter isDigit printed)
            else filter isDigit printed) = take 20 (filter isDigit printed)"
    by simp
  show ?thesis
    unfolding sanitizePhone_def Let_def assms(2) sum.case f t using assms(1,3) ne
    by (simp only: if_False)
qed

lemma list_all_take_filter: "list_all P (take n (filter P xs))"
  by (auto simp: list_all_iff dest: in_set_takeD)

lemma sanitizePhone_range:
  assumes "sanitizePhone v = Inr ph"
  shows "list_all isDigit (digits ph) \<and> length (digits ph) \<le> 20"
proof (cases "nullish v")
  case True
  with assms show ?thesis by (auto simp add: sanitizePhone_nullish)
next
  case False
  show ?thesis
  proof (cases "String v")
    case (Inl e)
    with False assms show ?thesis by (simp add: sanitizePhone_throws)
  next
    case (Inr printed)
    show ?thesis
    proof (cases "filter isDigit printed = []")
      case True
      from sanitizePhone_empty [OF False Inr True] assms show ?thesis by auto
    next
      case nonempty: False
      from sanitizePhone_digits [OF False Inr nonempty] assms
      have "digits ph = take 20 (filter isDigit printed)" by auto
      then show ?thesis by (simp add: list_all_take_filter)
    qed
  qed
qed

text \<open>
  C9 (as amended). \<open>sanitizePhone\<close> raises exactly when the conversion of its input to a
  string throws, and then a \<open>TypeError\<close>: on an object with an own property \<open>toString\<close>
  and on an array with an element whose conversion throws, never on \<open>null\<close>, \<open>undefined\<close>,
  a boolean, a number or a string. On every other input it returns digits that are all in
  \<open>0\<close>..\<open>9\<close> and at most 20 long; display and digits are both empty when the input is
  \<open>null\<close> or \<open>undefined\<close>, prints as the empty string, or has no digit; otherwise digits
  are the first 20 digits of the input and display is digits, with a \<open>+\<close> in front exactly
  when the trimmed input starts with \<open>+\<close>.
\<close>

theorem sanitizePhone_total:
  "(\<forall>ph. sanitizePhone v = Inr ph
       \<longrightarrow> list_all isDigit (digits ph) \<and> length (digits ph) \<le> 20)
   \<and> (nullish v \<longrightarrow> sanitizePhone v = Inr \<lparr>display = [], digits = []\<rparr>)
   \<and> (\<forall>printed. String v = Inr printed \<and> (printed = [] \<or> filter isDigit printed = [])
         \<longrightarrow> sanitizePhone v = Inr \<lparr>display = [], digits = []\<rparr>)
   \<and> (\<forall>printed. \<not> nullish v \<and> String v = Inr printed \<and> filter isDigit printed \<noteq> []
         \<longrightarrow> sanitizePhone v =
               Inr \<lparr>display = (if take 1 (trim printed) = ''+''
                                then ''+'' @ take 20 (filter isDigit printed)
                                else take 20 (filter isDigit printed)),
                    digits = take 20 (filter isDigit printed)\<rparr>)
   \<and> (\<forall>e. sanitizePhone v = Inl e \<longleftrightarrow> String v = Inl e)
   \<and> (\<forall>e. String v = Inl e \<longrightarrow> e = TypeError)
   \<and> (String v = Inl TypeError \<longrightarrow> (\<exists>kvs. v = JObj kvs) \<or> (\<exists>xs. v = JArr xs))
   \<and> (\<forall>kvs. v = JObj kvs
         \<longrightarrow> (String v = Inl TypeError \<longleftrightarrow> map_of kvs ''toString'' \<noteq> None))
   \<and> (\<forall>xs. v = JArr xs
         \<longrightarrow> (String v = Inl TypeError
              \<longleftrightarrow> (\<exists>x \<in> set xs. \<not> nullish x \<and> String x = Inl TypeError)))"
proof -
  have a: "list_all isDigit (digits ph) \<and> length (digits ph) \<le> 20"
    if "sanitizePhone v = Inr ph" for ph
    using that by (rule sanitizePhone_range)
  have b: "sanitizePhone v = Inr \<lparr>display = [], digits = []\<rparr>" if "nullish v"
    using that by (rule sanitizePhone_nullish)
  have c: "sanitizePhone v = Inr \<lparr>display = [], digits = []\<rparr>"
    if "String v = Inr printed" "printed = [] \<or> filter isDigit printed = []" for printed
  proof (cases "nullish v")
    case True
    then show ?thesis by (rule sanitizePhone_nullish)
  next
    case False
    from that(2) have "filter isDigit printed = []" by auto
    with False that(1) show ?thesis by (rule sanitizePhone_empty)
  qed
  have d: "sanitizePhone v =
               Inr \<lparr>display = (if take 1 (trim printed) = ''+''
                                then ''+'' @ take 20 (filter isDigit printed)
                                else take 20 (filter isDigit printed)),
                    digits = take 20 (filter isDigit printed)\<rparr>"
    if "\<not> nullish v" "String v = Inr printed" "filter isDigit printed \<noteq> []" for printed
    using that by (rule sanitizePhone_digits)
  have e: "sanitizePhone v = Inl e \<longleftrightarrow> String v = Inl e" for e
  proof
    assume l: "sanitizePhone v = Inl e"
    show "String v = Inl e"
    proof (cases "String v")
      case (Inl e')
      with String_throws_truthy [OF Inl] l show ?thesis by (simp add: sanitizePhone_throws)
    next
      case (Inr printed)
      have "\<exists>ph. sanitizePhone v = Inr ph"
      proof (cases "nullish v")
        case True
        then show ?thesis by (simp add: sanitizePhone_nullish)
      next
        case False
        then show ?thesis
          using sanitizePhone_empty [OF False Inr] sanitizePhone_digits [OF False Inr]
          by (cases "filter isDigit printed = []") blast+
      qed
      with l show ?thesis by simp
    qed
  next
    assume r: "String v = Inl e"
    with String_throws_truthy [OF r] show "sanitizePhone v = Inl e"
      by (simp add: sanitizePhone_throws)
  qed
  have f: "e = TypeError" if "String v = Inl e" for e
    using that by (rule String_error)
  from a b c d e f String_throws [of v] show ?thesis by blast
qed

theorem sanitizePhone_total_witness:
  "sanitizePhone (JStr '' +40 (712) 345-678 '')
     = Inr \<lparr>display = ''+40712345678'', digits = ''40712345678''\<rparr>
   \<and> sanitizePhone (JStr ''n/a'') = Inr \<lparr>display = [], digits = []\<rparr>
   \<and> sanitizePhone JNull = Inr \<lparr>display = [], digits = []\<rparr>
   \<and> sanitizePhone (JArr [JNum ''40'', JObj [(''toString'', JNull)]]) = Inl TypeError"
proof -
  have t: "String (JArr [JNum ''40'', JObj [(''toString'', JNull)]]) = Inl TypeError"
    by simp
  from sanitizePhone_total [of "JStr '' +40 (712) 345-678 ''"]
  have a: "sanitizePhone (JStr '' +40 (712) 345-678 '')
             = Inr \<lparr>display = ''+40712345678'', digits = ''40712345678''\<rparr>"
    by (simp add: isDigit_def trim_def isWhiteSpace_def)
  from sanitizePhone_total [of "JStr ''n/a''"]
  have b: "sanitizePhone (JStr ''n/a'') = Inr \<lparr>display = [], digits = []\<rparr>"
    by (simp add: isDigit_def)
  from sanitizePhone_total [of JNull]
  have c: "sanitizePhone JNull = Inr \<lparr>display = [], digits = []\<rparr>"
    by simp
  from sanitizePhone_total [of "JArr [JNum ''40'', JObj [(''toString'', JNull)]]"] t
  have d: "sanitizePhone (JArr [JNum ''40'', JObj [(''toString'', JNull)]]) = Inl TypeError"
    by blast
  from a b c d show ?thesis by blast
qed

text \<open>
  C9 as stated fails: on an object with an own property \<open>toString\<close>, which is neither
  \<open>null\<close> nor \<open>undefined\<close>, the conversion to a string throws and \<open>sanitizePhone\<close> raises
  instead of returning.
\<close>

theorem sanitizePhone_raises_counterexample:
  "\<not> nullish (JObj [(''toString'', JNum ''1'')])
   \<and> sanitizePhone (JObj [(''toString'', JNum ''1'')]) = Inl TypeError"
  by (simp add: sanitizePhone_def)

lemma normalizeStatus_falsy: "\<not> truthy v \<Longrightarrow> normalizeStatus v = Inr ''ringing''"
  by (simp add: normalizeStatus_def)

lemma normalizeStatus_throws: "String v = Inl e \<Longrightarrow> normalizeStatus v = Inl e"
  using String_throws_truthy [of v e] by (simp add: normalizeStatus_def)

lemma normalizeStatus_printed:
  assumes "truthy v" and "String v = Inr printed"
  shows "normalizeStatus v =
           Inr (if toLowerCase (trim printed) \<in> STATUS_LABELS then toLowerCase (trim printed)
                else if toLowerCase (trim printed) = ''no_answer''
                        \<or> toLowerCase (trim printed) = ''noanswer'' then ''missed''
                else ''ringing'')"
  using assms by (simp add: normalizeStatus_def Let_def)

text \<open>
  C8 (as amended). \<open>normalizeStatus\<close> raises exactly when the conversion of its input to a
  string throws, and then a \<open>TypeError\<close>: on an object with an own property \<open>toString\<close>
  and on an array with an element whose conversion throws, never on \<open>null\<close>, \<open>undefined\<close>,
  a boolean, a number or a string. Whatever it returns is one of \<open>ringing\<close>, \<open>answered\<close>,
  \<open>missed\<close>, \<open>rejected\<close>; a falsy input (absent, \<open>null\<close>, empty) and an input that prints
  as neither a label nor a synonym give \<open>ringing\<close>.
\<close>

theorem normalizeStatus_closed:
  "(\<forall>st. normalizeStatus v = Inr st \<longrightarrow> st \<in> STATUS_LABELS)
   \<and> (\<not> truthy v \<longrightarrow> normalizeStatus v = Inr ''ringing'')
   \<and> (\<forall>printed. String v = Inr printed
          \<and> toLowerCase (trim printed) \<notin> STATUS_LABELS \<union> {''no_answer'', ''noanswer''}
         \<longrightarrow> normalizeStatus v = Inr ''ringing'')
   \<and> (\<forall>e. normalizeStatus v = Inl e \<longleftrightarrow> String v = Inl e)
   \<and> (\<forall>e. String v = Inl e \<longrightarrow> e = TypeError)
   \<and> (String v = Inl TypeError \<longrightarrow> (\<exists>kvs. v = JObj kvs) \<or> (\<exists>xs. v = JArr xs))
   \<and> (\<forall>kvs. v = JObj kvs
         \<longrightarrow> (String v = Inl TypeError \<longleftrightarrow> map_of kvs ''toString'' \<noteq> None))
   \<and> (\<forall>xs. v = JArr xs
         \<longrightarrow> (String v = Inl TypeError
              \<longleftrightarrow> (\<exists>x \<in> set xs. \<not> nullish x \<and> String x = Inl TypeError)))"
proof -
  have returns: "\<exists>st. normalizeStatus v = Inr st \<and> st \<in> STATUS_LABELS
                   \<and> (toLowerCase (trim printed) \<notin> STATUS_LABELS \<union> {''no_answer'', ''noanswer''}
                        \<longrightarrow> st = ''ringing'')"
    if "String v = Inr printed" for printed
  proof (cases "truthy v")
    case True
    from normalizeStatus_printed [OF True that] show ?thesis
      by (simp add: STATUS_LABELS_def)
  next
    case False
    then show ?thesis by (simp add: normalizeStatus_falsy STATUS_LABELS_def)
  qed
  have a: "st \<in> STATUS_LABELS" if "normalizeStatus v = Inr st" for st
  proof (cases "String v")
    case (Inl e)
    with that show ?thesis by (simp add: normalizeStatus_throws)
  next
    case (Inr printed)
    from returns [OF Inr] that show ?thesis by auto
  qed
  have b: "normalizeStatus v = Inr ''ringing''" if "\<not> truthy v"
    using that by (rule normalizeStatus_falsy)
  have c: "normalizeStatus v = Inr ''ringing''"
    if "String v = Inr printed"
      "toLowerCase (trim printed) \<notin> STATUS_LABELS \<union> {''no_answer'', ''noanswer''}" for printed
    using returns [OF that(1)] that(2) by auto
  have d: "normalizeStatus v = Inl e \<longleftrightarrow> String v = Inl e" for e
  proof
    assume l: "normalizeStatus v = Inl e"
    show "String v = Inl e"
    proof (cases "String v")
      case (Inl e')
      with l show ?thesis by (simp add: normalizeStatus_throws)
    next
      case (Inr printed)
      from returns [OF Inr] l show ?thesis by auto
    qed
  next
    assume "String v = Inl e"
    then show "normalizeStatus v = Inl e" by (rule normalizeStatus_throws)
  qed
  have f: "e = TypeError" if "String v = Inl e" for e
    using that by (rule String_error)
  from a b c d f String_throws [of v] show ?thesis by blast
qed

theorem normalizeStatus_closed_witness:
  "normalizeStatus (JStr '' Busy '') = Inr ''ringing''
   \<and> normalizeStatus (JStr ''Answered'') = Inr ''answered''
   \<and> normalizeStatus JNull = Inr ''ringing''
   \<and> normalizeStatus (JObj [(''toString'', JNull)]) = Inl TypeError
   \<and> normalizeStatus (JObj [(''status'', JStr ''missed'')]) = Inr ''ringing''"
proof -
  have p: "toLowerCase (trim '' Busy '') = ''busy''"
    by (simp add: toLowerCase_def toLowerChar_def trim_def isWhiteSpace_def char_of_eq_iff)
  from normalizeStatus_closed [of "JStr '' Busy ''"] p
  have a: "normalizeStatus (JStr '' Busy '') = Inr ''ringing''"
    by (simp add: STATUS_LABELS_def)
  have b: "normalizeStatus (JStr ''Answered'') = Inr ''answered''"
    by (simp add: normalizeStatus_def STATUS_LABELS_def toLowerCase_def toLowerChar_def trim_def
          isWhiteSpace_def char_of_eq_iff)
  from normalizeStatus_closed [of JNull]
  have c: "normalizeStatus JNull = Inr ''ringing''" by simp
  from normalizeStatus_closed [of "JObj [(''toString'', JNull)]"]
  have d: "normalizeStatus (JObj [(''toString'', JNull)]) = Inl TypeError" by simp
  have q: "toLowerCase (trim ''[object Object]'') = ''[object object]''"
    by (simp add: toLowerCase_def toLowerChar_def trim_def isWhiteSpace_def char_of_eq_iff)
  from normalizeStatus_closed [of "JObj [(''status'', JStr ''missed'')]"] q
  have e: "normalizeStatus (JObj [(''status'', JStr ''missed'')]) = Inr ''ringing''"
    by (simp add: STATUS_LABELS_def)
  from a b c d e show ?thesis by blast
qed

text \<open>
  C8 as stated fails: on an object with an own property \<open>toString\<close> the conversion to a
  string throws and \<open>normalizeStatus\<close> raises instead of returning a label.
\<close>

theorem normalizeStatus_raises_counterexample:
  "truthy (JObj [(''toString'', JNum ''1'')])
   \<and> normalizeStatus (JObj [(''toString'', JNum ''1'')]) = Inl TypeError"
  by (simp add: normalizeStatus_def)

lemma falsy_not_synonym:
  assumes "\<not> truthy v" and "String v = Inr printed"
  shows "toLowerCase (trim printed) \<noteq> ''no_answer'' \<and> toLowerCase (trim printed) \<noteq> ''noanswer''"
proof (cases v)
  case JUndefined
  with assms(2) show ?thesis by (auto simp add: toLowerCase_def trim_def isWhiteSpace_def)
next
  case JNull
  with assms(2) show ?thesis by (auto simp add: toLowerCase_def trim_def isWhiteSpace_def)
next
  case (JBool b)
  with assms show ?thesis by (auto simp add: toLowerCase_def trim_def isWhiteSpace_def)
next
  case (JNum n)
  with assms have "printed = ''0'' \<or> printed = ''NaN''" by auto
  then show ?thesis by (auto simp add: toLowerCase_def trim_def isWhiteSpace_def)
next
  case (JStr s)
  with assms show ?thesis by (auto simp add: toLowerCase_def trim_def)
next
  case (JArr xs)
  with assms show ?thesis by simp
next
  case (JObj kvs)
  with assms show ?thesis by simp
qed

text \<open>
  C3 (as amended). An input that, trimmed and lowercased, is \<open>no_answer\<close> (with an
  underscore) or \<open>noanswer\<close> is mapped to \<open>missed\<close>; \<open>no answer\<close> with a space is not
  a synonym and is mapped to \<open>ringing\<close>.
\<close>

theorem normalizeStatus_synonyms:
  "(\<forall>printed. String v = Inr printed
        \<and> (toLowerCase (trim printed) = ''no_answer'' \<or> toLowerCase (trim printed) = ''noanswer'')
      \<longrightarrow> normalizeStatus v = Inr ''missed'')
   \<and> (\<forall>printed. String v = Inr printed \<and> toLowerCase (trim printed) = ''no answer''
      \<longrightarrow> normalizeStatus v = Inr ''ringing'')"
proof -
  have a: "normalizeStatus v = Inr ''missed''"
    if "String v = Inr printed"
      "toLowerCase (trim printed) = ''no_answer'' \<or> toLowerCase (trim printed) = ''noanswer''"
    for printed
  proof (cases "truthy v")
    case True
    from normalizeStatus_printed [OF True that(1)] that(2) show ?thesis
      by (auto simp add: STATUS_LABELS_def)
  next
    case False
    from falsy_not_synonym [OF False that(1)] that(2) show ?thesis by blast
  qed
  have b: "normalizeStatus v = Inr ''ringing''"
    if "String v = Inr printed" "toLowerCase (trim printed) = ''no answer''" for printed
  proof (cases "truthy v")
    case True
    from normalizeStatus_printed [OF True that(1)] that(2) show ?thesis
      by (simp add: STATUS_LABELS_def)
  next
    case False
    then show ?thesis by (rule normalizeStatus_falsy)
  qed
  from a b show ?thesis by blast
qed

theorem normalizeStatus_synonyms_witness:
  "normalizeStatus (JStr '' NoAnswer '') = Inr ''missed''
   \<and> normalizeStatus (JStr ''NO_ANSWER'') = Inr ''missed''
   \<and> normalizeStatus (JStr ''No Answer'') = Inr ''ringing''"
  using normalizeStatus_synonyms [of "JStr '' NoAnswer ''"]
    normalizeStatus_synonyms [of "JStr ''NO_ANSWER''"]
    normalizeStatus_synonyms [of "JStr ''No Answer''"]
  by (simp add: toLowerCase_def toLowerChar_def trim_def isWhiteSpace_def char_of_eq_iff)

text \<open>
  C3 as stated fails: \<open>No Answer\<close> is \<open>no answer\<close> after trimming and lowercasing, yet
  the result is not \<open>missed\<close>.
\<close>

theorem no_answer_counterexample:
  "String (JStr ''No Answer'') = Inr ''No Answer''
   \<and> toLowerCase (trim ''No Answer'') = ''no answer''
   \<and> normalizeStatus (JStr ''No Answer'') \<noteq> Inr ''missed''"
  by (simp add: normalizeStatus_def STATUS_LABELS_def toLowerCase_def toLowerChar_def trim_def
        isWhiteSpace_def char_of_eq_iff)

subsection \<open>The limit of the log query\<close>

lemma small_nat_cases:
  "k < 10 \<Longrightarrow> k = 0 \<or> k = 1 \<or> k = 2 \<or> k = 3 \<or> k = 4 \<or> k = 5 \<or> k = 6 \<or> k = 7 \<or> k = 8 \<or> k = (9::nat)"
  by arith

lemma digit_char_props:
  "isDigit (digit_char d) \<and> digit_val (digit_char d) = d mod 10 \<and> \<not> isWhiteSpace (digit_char d)
   \<and> digit_char d \<noteq> CHR ''-'' \<and> digit_char d \<noteq> CHR ''+''"
proof -
  have "d mod 10 < 10" by simp
  from small_nat_cases [OF this] show ?thesis
    unfolding digit_char_def isDigit_def digit_val_def isWhiteSpace_def
    by (elim disjE) simp_all
qed

declare string_of_nat.simps [simp del]

lemma string_of_nat_digits: "list_all isDigit (string_of_nat n) \<and> string_of_nat n \<noteq> []"
proof (induction n rule: string_of_nat.induct)
  case (1 n)
  have e: "string_of_nat n =
      (if n < 10 then [digit_char n] else string_of_nat (n div 10) @ [digit_char (n mod 10)])"
    by (rule string_of_nat.simps)
  show ?case
  proof (cases "n < 10")
    case True
    with e show ?thesis by (simp add: digit_char_props)
  next
    case False
    with 1 have "list_all isDigit (string_of_nat (n div 10))" by simp
    with e False show ?thesis by (simp add: digit_char_props)
  qed
qed

lemma hd_string_of_nat: "\<exists>d ds. string_of_nat n = digit_char d # ds"
proof (induction n rule: string_of_nat.induct)
  case (1 n)
  have e: "string_of_nat n =
      (if n < 10 then [digit_char n] else string_of_nat (n div 10) @ [digit_char (n mod 10)])"
    by (rule string_of_nat.simps)
  show ?case
  proof (cases "n < 10")
    case True
    with e have "string_of_nat n = digit_char n # []" by simp
    then show ?thesis by blast
  next
    case False
    with 1 obtain d ds where "string_of_nat (n div 10) = digit_char d # ds" by blast
    with e False have "string_of_nat n = digit_char d # (ds @ [digit_char (n mod 10)])" by simp
    then show ?thesis by blast
  qed
qed

lemma nat_of_digits_snoc: "nat_of_digits (z @ [c]) = 10 * nat_of_digits z + digit_val c"
  by (simp add: nat_of_digits_def)

lemma nat_of_digits_string_of_nat: "nat_of_digits (string_of_nat n) = n"
proof (induction n rule: string_of_nat.induct)
  case (1 n)
  have e: "string_of_nat n =
      (if n < 10 then [digit_char n] else string_of_nat (n div 10) @ [digit_char (n mod 10)])"
    by (rule string_of_nat.simps)
  show ?case
  proof (cases "n < 10")
    case True
    with e show ?thesis
      by (simp add: nat_of_digits_def digit_char_props)
  next
    case False
    with 1 have "nat_of_digits (string_of_nat (n div 10)) = n div 10" by simp
    with e False show ?thesis
      by (simp add: nat_of_digits_snoc digit_char_props)
  qed
qed

lemma takeWhile_all: "list_all P xs \<Longrightarrow> takeWhile P xs = xs"
  by (induction xs) auto

lemma parseInt_digits:
  assumes "s = digit_char d # ds" and "list_all isDigit s"
  shows "parseInt_text s = Some (int (nat_of_digits s))"
    and "parseInt_text (CHR ''-'' # s) = Some (- int (nat_of_digits s))"
proof -
  have tw: "takeWhile isDigit s = s"
    using assms(2) by (rule takeWhile_all)
  have ws: "\<not> isWhiteSpace (digit_char d)" and m: "digit_char d \<noteq> CHR ''-''"
    and p: "digit_char d \<noteq> CHR ''+''"
    using digit_char_props [of d] by blast+
  have ne: "s \<noteq> []" using assms(1) by simp
  have t1: "trimStart s = s"
    using ws by (simp add: trimStart_def assms(1))
  have t2: "trimStart (CHR ''-'' # s) = CHR ''-'' # s"
    by (simp add: trimStart_def isWhiteSpace_def)
  have k: "take 1 s \<noteq> ''-''" "take 1 s \<noteq> ''+''"
    using m p by (simp_all add: assms(1))
  show "parseInt_text s = Some (int (nat_of_digits s))"
    unfolding parseInt_text_def Let_def t1 using k ne by (simp add: tw)
  show "parseInt_text (CHR ''-'' # s) = Some (- int (nat_of_digits s))"
    unfolding parseInt_text_def Let_def t2 using ne by (simp add: tw)
qed

lemma parseInt_string_of_int: "parseInt (JStr (string_of_int n)) = Inr (Some n)"
proof -
  obtain d ds where h: "string_of_nat (nat \<bar>n\<bar>) = digit_char d # ds"
    using hd_string_of_nat [of "nat \<bar>n\<bar>"] by blast
  have a: "list_all isDigit (string_of_nat (nat \<bar>n\<bar>))"
    using string_of_nat_digits [of "nat \<bar>n\<bar>"] by blast
  have v: "nat_of_digits (string_of_nat (nat \<bar>n\<bar>)) = nat \<bar>n\<bar>"
    by (rule nat_of_digits_string_of_nat)
  show ?thesis
  proof (cases "n < 0")
    case True
    then have e: "string_of_int n = CHR ''-'' # string_of_nat (nat \<bar>n\<bar>)"
      by (simp add: string_of_int_def)
    show ?thesis
      unfolding parseInt_def String.simps sum.case e parseInt_digits(2) [OF h a] v
      using True by simp
  next
    case False
    then have e: "string_of_int n = string_of_nat (nat \<bar>n\<bar>)"
      by (simp add: string_of_int_def)
    show ?thesis
      unfolding parseInt_def String.simps sum.case e parseInt_digits(1) [OF h a] v
      using False by simp
  qed
qed

lemma parseInt_undefined: "parseInt JUndefined = Inr None"
  by (simp add: parseInt_def parseInt_text_def trimStart_def isWhiteSpace_def isDigit_def)

lemma parseInt_throws: "parseInt v = Inl e \<longleftrightarrow> String v = Inl e"
  by (simp add: parseInt_def split: sum.splits)

lemma limit_throws: "limit req = Inl e \<longleftrightarrow> String (get (query req) ''limit'') = Inl e"
  by (auto simp add: limit_def parseInt_def split: sum.splits)

text \<open>
  C4 (as amended). Computing the limit throws exactly when the conversion of the parameter
  to a string does, which it never does for an absent parameter or a string. Otherwise the
  effective limit is between 1 and 500: when the parameter parses as an integer \<open>n\<close> other
  than 0 it is \<open>n\<close> clamped to that interval; when the parameter is absent, does not parse,
  or parses as 0, it is the default 100. In particular the decimal notation of any integer
  \<open>n\<close> parses as \<open>n\<close>.
\<close>

theorem limit_effective:
  "(\<forall>n. limit req = Inr n \<longrightarrow> 1 \<le> n \<and> n \<le> 500)
   \<and> (parseInt (get (query req) ''limit'') = Inr None \<longrightarrow> limit req = Inr 100)
   \<and> (parseInt (get (query req) ''limit'') = Inr (Some 0) \<longrightarrow> limit req = Inr 100)
   \<and> (\<forall>n. parseInt (get (query req) ''limit'') = Inr (Some n) \<and> n \<noteq> 0
          \<longrightarrow> limit req = Inr (max 1 (min n 500)))
   \<and> (get (query req) ''limit'' = JUndefined \<longrightarrow> limit req = Inr 100)
   \<and> (\<forall>n. get (query req) ''limit'' = JStr (string_of_int n)
          \<longrightarrow> limit req = Inr (if n = 0 then 100 else max 1 (min n 500)))
   \<and> (\<forall>e. limit req = Inl e \<longleftrightarrow> String (get (query req) ''limit'') = Inl e)
   \<and> (\<forall>printed. String (get (query req) ''limit'') = Inr printed
          \<longrightarrow> (\<exists>n. limit req = Inr n \<and> 1 \<le> n \<and> n \<le> 500))"
proof -
  have a: "1 \<le> n \<and> n \<le> 500" if "limit req = Inr n" for n
    using that by (auto simp add: limit_def MAX_HISTORY_def split: sum.splits option.splits)
  have b: "limit req = Inr 100" if "parseInt (get (query req) ''limit'') = Inr None"
    using that by (simp add: limit_def MAX_HISTORY_def)
  have c: "limit req = Inr 100" if "parseInt (get (query req) ''limit'') = Inr (Some 0)"
    using that by (simp add: limit_def MAX_HISTORY_def)
  have d: "limit req = Inr (max 1 (min n 500))"
    if "parseInt (get (query req) ''limit'') = Inr (Some n)" "n \<noteq> 0" for n
    using that by (simp add: limit_def MAX_HISTORY_def)
  have e: "limit req = Inr 100" if "get (query req) ''limit'' = JUndefined"
    using that by (simp add: limit_def MAX_HISTORY_def parseInt_undefined)
  have f: "limit req = Inr (if n = 0 then 100 else max 1 (min n 500))"
    if "get (query req) ''limit'' = JStr (string_of_int n)" for n
    using that by (simp add: limit_def MAX_HISTORY_def parseInt_string_of_int)
  have g: "\<exists>n. limit req = Inr n \<and> 1 \<le> n \<and> n \<le> 500"
    if "String (get (query req) ''limit'') = Inr printed" for printed
  proof -
    from that obtain n where "limit req = Inr n"
      by (auto simp add: limit_def parseInt_def)
    with a show ?thesis by blast
  qed
  from a b c d e f g limit_throws [of req] show ?thesis by blast
qed

lemmas eval_parse = parseInt_def parseInt_text_def trimStart_def isWhiteSpace_def isDigit_def
  nat_of_digits_def digit_val_def

theorem limit_effective_witness:
  "limit (log_request (JObj [(''limit'', JStr ''250'')])) = Inr 250
   \<and> limit (log_request (JObj [(''limit'', JStr ''-5'')])) = Inr 1
   \<and> limit (log_request (JObj [(''limit'', JStr ''9999'')])) = Inr 500
   \<and> limit (log_request (JObj [(''limit'', JStr ''0'')])) = Inr 100
   \<and> limit (log_request (JObj [(''limit'', JStr ''many'')])) = Inr 100
   \<and> limit (log_request (JObj [])) = Inr 100"
  using limit_effective [of "log_request (JObj [(''limit'', JStr ''250'')])"]
        limit_effective [of "log_request (JObj [(''limit'', JStr ''-5'')])"]
        limit_effective [of "log_request (JObj [(''limit'', JStr ''9999'')])"]
        limit_effective [of "log_request (JObj [(''limit'', JStr ''0'')])"]
        limit_effective [of "log_request (JObj [(''limit'', JStr ''many'')])"]
        limit_effective [of "log_request (JObj [])"]
  by (simp add: log_request_def eval_parse)

text \<open>C4 as stated fails at \<open>limit=0\<close>: it parses as 0 and the limit is 100, not 1.\<close>

theorem limit_zero_counterexample:
  "parseInt (get (query (log_request (JObj [(''limit'', JStr ''0'')]))) ''limit'') = Inr (Some 0)
   \<and> limit (log_request (JObj [(''limit'', JStr ''0'')])) \<noteq> Inr 1"
  by (simp add: limit_def MAX_HISTORY_def log_request_def eval_parse)

subsection \<open>Broadcast\<close>

lemma turn_failing: "failing (sinks (write_or_cleanup p l s) r) = failing (sinks s r)"
  by (simp add: write_or_cleanup_def res_write_def Let_def split: option.splits)

lemma turn_out:
  "out (sinks (write_or_cleanup p l s) r) =
     (if res l = r \<and> \<not> failing (sinks s r) then out (sinks s r) @ [p] else out (sinks s r))"
  by (simp add: write_or_cleanup_def res_write_def Let_def split: option.splits)

lemma turn_listeners:
  "listeners (write_or_cleanup p l s) =
     (if failing (sinks s (res l)) then filter (\<lambda>x. lid x \<noteq> lid l) (listeners s) else listeners s)"
  by (simp add: write_or_cleanup_def res_write_def Let_def split: option.splits)

lemma turn_timers:
  "timers (write_or_cleanup p l s) =
     (if failing (sinks s (res l)) then (case heartbeat l of None \<Rightarrow> timers s | Some t \<Rightarrow> timers s - {t})
      else timers s)"
  by (simp add: write_or_cleanup_def res_write_def Let_def split: option.splits)

lemma loop_failing: "failing (sinks (broadcast_loop p ls s) r) = failing (sinks s r)"
proof (induction ls arbitrary: s)
  case Nil
  then show ?case by simp
next
  case (Cons l ls)
  show ?case
    by (simp only: broadcast_loop.simps(2) Cons.IH turn_failing)
qed

lemma loop_out:
  "out (sinks (broadcast_loop p ls s) r) =
     (if failing (sinks s r) then out (sinks s r)
      else out (sinks s r) @ replicate (length (filter (\<lambda>l. res l = r) ls)) p)"
proof (induction ls arbitrary: s)
  case Nil
  then show ?case by simp
next
  case (Cons l ls)
  show ?case
    by (simp only: broadcast_loop.simps(2) Cons.IH turn_failing turn_out)
       (simp add: replicate_append_same)
qed

lemma loop_listeners:
  "listeners (broadcast_loop p ls s) =
     filter (\<lambda>x. \<not> (\<exists>l \<in> set ls. failing (sinks s (res l)) \<and> lid l = lid x)) (listeners s)"
proof (induction ls arbitrary: s)
  case Nil
  then show ?case by simp
next
  case (Cons l ls)
  show ?case
    by (simp only: broadcast_loop.simps(2) Cons.IH turn_failing turn_listeners)
       (auto intro: filter_cong)
qed

lemma loop_timers:
  "timers (broadcast_loop p ls s) \<subseteq> timers s
   \<and> (\<forall>l \<in> set ls. failing (sinks s (res l)) \<longrightarrow> (\<forall>t. heartbeat l = Some t \<longrightarrow> t \<notin> timers (broadcast_loop p ls s)))"
proof (induction ls arbitrary: s)
  case Nil
  then show ?case by simp
next
  case (Cons l ls)
  have d: "timers (write_or_cleanup p l s) \<subseteq> timers s"
    by (auto simp add: turn_timers split: option.splits)
  have e: "failing (sinks s (res l)) \<Longrightarrow> heartbeat l = Some t \<Longrightarrow> t \<notin> timers (write_or_cleanup p l s)" for t
    by (simp add: turn_timers)
  from Cons.IH [of "write_or_cleanup p l s"] d e show ?case
    unfolding broadcast_loop.simps(2) turn_failing by (auto simp del: broadcast_loop.simps)
qed

lemma filter_eq_key:
  "distinct (map f xs) \<Longrightarrow> x \<in> set xs \<Longrightarrow> filter (\<lambda>y. f y = f x) xs = [x]"
proof (induction xs)
  case Nil
  then show ?case by simp
next
  case (Cons a xs)
  show ?case
  proof (cases "a = x")
    case True
    with Cons.prems(1) have "f x \<notin> f ` set xs" by simp
    then have "\<forall>y \<in> set xs. f y \<noteq> f x" by (force simp add: image_iff)
    then have "filter (\<lambda>y. f y = f x) xs = []" by (simp add: filter_empty_conv)
    with True show ?thesis by simp
  next
    case False
    with Cons.prems have "x \<in> set xs" and "f a \<noteq> f x" by auto
    with Cons show ?thesis by simp
  qed
qed

text \<open>
  C7. In a registry whose listeners are distinct objects with their own response objects,
  \<open>broadcast\<close> appends the event's frame to the sink of every listener whose write
  succeeds and keeps that listener registered, whatever happens to the others; a listener
  whose write throws is no longer registered afterwards and its heartbeat timer is no
  longer active.
\<close>

theorem broadcast_isolation:
  assumes "distinct (map lid (listeners s))" and "distinct (map res (listeners s))"
    and "l \<in> set (listeners s)"
  shows "(\<not> failing (sinks s (res l)) \<longrightarrow>
            out (sinks (broadcast e s) (res l)) = out (sinks s (res l)) @ [CallFrame e]
            \<and> l \<in> set (listeners (broadcast e s)))
       \<and> (failing (sinks s (res l)) \<longrightarrow>
            l \<notin> set (listeners (broadcast e s))
            \<and> (\<forall>t. heartbeat l = Some t \<longrightarrow> t \<notin> timers (broadcast e s)))"
proof -
  have one: "length (filter (\<lambda>x. res x = res l) (listeners s)) = 1"
    using filter_eq_key [OF assms(2) assms(3)] by simp
  have same: "x = l" if "x \<in> set (listeners s)" "lid x = lid l" for x
  proof -
    have "inj_on lid (set (listeners s))" using assms(1) by (simp add: distinct_map)
    with that assms(3) show ?thesis by (auto dest: inj_onD)
  qed
  have delivered: "out (sinks (broadcast e s) (res l)) = out (sinks s (res l)) @ [CallFrame e]"
    if "\<not> failing (sinks s (res l))"
    using that one by (simp add: broadcast_def loop_out)
  have kept: "l \<in> set (listeners (broadcast e s))" if "\<not> failing (sinks s (res l))"
    using that assms(3) same by (auto simp add: broadcast_def loop_listeners)
  have removed: "l \<notin> set (listeners (broadcast e s))" if "failing (sinks s (res l))"
    using that assms(3) by (auto simp add: broadcast_def loop_listeners)
  have cancelled: "t \<notin> timers (broadcast e s)" if "failing (sinks s (res l))" "heartbeat l = Some t" for t
    using that assms(3) loop_timers [of "CallFrame e" "listeners s" s] by (auto simp add: broadcast_def)
  from delivered kept removed cancelled show ?thesis by blast
qed

theorem broadcast_isolation_witness:
  "out (sinks (broadcast event1 two_listeners) 11) = [RetryFrame, CallFrame event1]
   \<and> out (sinks (broadcast event1 two_listeners) 10) = [RetryFrame]
   \<and> listeners (broadcast event1 two_listeners) = [\<lparr>lid = 1, res = 11, heartbeat = Some 1\<rparr>]
   \<and> timers (broadcast event1 two_listeners) = {1}"
proof -
  have d: "distinct (map lid (listeners two_listeners))" "distinct (map res (listeners two_listeners))"
    by (simp_all add: two_listeners_def)
  have m: "\<lparr>lid = 0, res = 10, heartbeat = Some 0\<rparr> \<in> set (listeners two_listeners)"
          "\<lparr>lid = 1, res = 11, heartbeat = Some 1\<rparr> \<in> set (listeners two_listeners)"
    by (simp_all add: two_listeners_def)
  from broadcast_isolation [OF d m(1), of event1] broadcast_isolation [OF d m(2), of event1]
  show ?thesis
    by (simp add: broadcast_def two_listeners_def write_or_cleanup_def res_write_def initial_def)
qed

subsection \<open>Initialization\<close>

lemma ensure_ready:
  "readyPromise s = Some p \<Longrightarrow> ensurePersistenceReady db_query (s, db) = (p, s, db)"
  by (simp add: ensurePersistenceReady_def)

lemma ensure_memo:
  assumes "ensurePersistenceReady db_query (s, db) = (p, s1, db1)"
  shows "readyPromise s1 = Some p"
proof (cases "readyPromise s")
  case (Some p')
  with assms show ?thesis by (simp add: ensurePersistenceReady_def)
next
  case None
  with assms show ?thesis
    by (auto simp add: ensurePersistenceReady_def Let_def split: prod.splits sum.splits)
qed


lemma post_rejected:
  "readyPromise s = Some (Rejected err) \<Longrightarrow>
   post db_query secret now req (s, db) = (Inr (Json 500 (Error ''server error'')), s, db)"
  by (simp add: post_def ensure_ready)





subsection \<open>Ingestion\<close>

lemma readCall_phone:
  "readCall req = Inr (Some c) \<Longrightarrow>
   sanitizePhone (rawPhone req) = Inr (c_phone c)
   \<and> \<not> (display (c_phone c) = [] \<and> digits (c_phone c) = [])"
  by (auto simp add: readCall_def split: sum.splits if_splits)

lemma readCall_missing:
  "sanitizePhone (rawPhone req) = Inr ph \<Longrightarrow> display ph = [] \<and> digits ph = [] \<Longrightarrow>
   readCall req = Inr None"
  by (simp add: readCall_def)

lemma post_unauthorized:
  assumes "ensurePersistenceReady db_query sd = (Fulfilled, s1, db1)"
    and "\<not> authorized secret req"
  shows "post db_query secret now req sd = (Inr (Json 401 (Error ''invalid secret'')), s1, db1)"
  using assms by (simp add: post_def)

lemma post_threw:
  assumes "ensurePersistenceReady db_query sd = (Fulfilled, s1, db1)"
    and "authorized secret req"
    and "readCall req = Inl e"
  shows "post db_query secret now req sd = (Inl e, after_warning secret s1, db1)"
  using assms by (simp add: post_def Let_def)

lemma post_phone_missing:
  assumes "ensurePersistenceReady db_query sd = (Fulfilled, s1, db1)"
    and "authorized secret req"
    and "readCall req = Inr None"
  shows "post db_query secret now req sd
           = (Inr (Json 400 (Error ''phone missing'')), after_warning secret s1, db1)"
  using assms by (simp add: post_def Let_def)

lemma post_insert_failed:
  assumes "ensurePersistenceReady db_query sd = (Fulfilled, s1, db1)"
    and "authorized secret req"
    and "readCall req = Inr (Some c)"
    and "db_query INSERT_CALL (insertParams now c) db1 = (Inl err, db2)"
  shows "post db_query secret now req sd
           = (Inr (Json 500 (Error ''server error'')), after_warning secret s1, db2)"
  using assms by (simp add: post_def Let_def)

lemma turn_module_fields:
  "callHistory (write_or_cleanup p l s) = callHistory s
   \<and> lastCall (write_or_cleanup p l s) = lastCall s
   \<and> readyPromise (write_or_cleanup p l s) = readyPromise s
   \<and> sequence (write_or_cleanup p l s) = sequence s"
  by (simp add: write_or_cleanup_def res_write_def Let_def split: option.splits)

lemma loop_module_fields:
  "callHistory (broadcast_loop p ls s) = callHistory s
   \<and> lastCall (broadcast_loop p ls s) = lastCall s
   \<and> readyPromise (broadcast_loop p ls s) = readyPromise s
   \<and> sequence (broadcast_loop p ls s) = sequence s"
proof (induction ls arbitrary: s)
  case Nil
  then show ?case by simp
next
  case (Cons l ls)
  show ?case
    by (simp only: broadcast_loop.simps(2) Cons.IH turn_module_fields)
qed

lemma broadcast_module_fields:
  "callHistory (broadcast e s) = callHistory s
   \<and> lastCall (broadcast e s) = lastCall s
   \<and> readyPromise (broadcast e s) = readyPromise s
   \<and> sequence (broadcast e s) = sequence s"
  by (simp add: broadcast_def loop_module_fields)

lemma storeInHistory_front: "mostRecent (storeInHistory e h) = Some e"
  by (cases h) (simp_all add: storeInHistory_def mostRecent_def Let_def MAX_HISTORY_def)

lemma after_warning_fields:
  "callHistory (after_warning secret s) = callHistory s
   \<and> lastCall (after_warning secret s) = lastCall s
   \<and> readyPromise (after_warning secret s) = readyPromise s
   \<and> sequence (after_warning secret s) = sequence s
   \<and> listeners (after_warning secret s) = listeners s
   \<and> sinks (after_warning secret s) = sinks s
   \<and> timers (after_warning secret s) = timers s"
  by (simp add: after_warning_def)

lemma post_inserted:
  assumes "ensurePersistenceReady db_query sd = (Fulfilled, s1, db1)"
    and "authorized secret req"
    and "readCall req = Inr (Some c)"
    and "db_query INSERT_CALL (insertParams now c) db1 = (Inr insertRes, db2)"
  shows "\<exists>n. fst (post db_query secret now req sd) = Inr (Json 200 Success)
            \<and> lastCall (fst (snd (post db_query secret now req sd)))
                = Some (entry (string_of_nat n) now c)
            \<and> callHistory (fst (snd (post db_query secret now req sd)))
                = storeInHistory (entry (string_of_nat n) now c) (callHistory s1)
            \<and> readyPromise (fst (snd (post db_query secret now req sd))) = Some Fulfilled"
proof -
  obtain n seq1 where a: "assignId insertRes (sequence (after_warning secret s1)) = (n, seq1)"
    by (cases "assignId insertRes (sequence (after_warning secret s1))") auto
  have r: "readyPromise s1 = Some Fulfilled"
    using assms(1) by (cases sd) (simp add: ensure_memo)
  have "post db_query secret now req sd =
          (Inr (Json 200 Success),
           broadcast (entry (string_of_nat n) now c)
             ((after_warning secret s1)
                \<lparr>sequence := max seq1 (if n \<noteq> 0 then n else seq1),
                 callHistory := storeInHistory (entry (string_of_nat n) now c)
                                  (callHistory (after_warning secret s1)),
                 lastCall := Some (entry (string_of_nat n) now c)\<rparr>),
           db2)"
    using assms a by (simp add: post_def Let_def)
  then show ?thesis
    using r by (intro exI [of _ n]) (simp add: broadcast_module_fields after_warning_fields)
qed

text \<open>
  What a request to the ingestion endpoint does once the initialization has succeeded: it
  is answered with success after the entry has been stored, or it leaves ring and
  last-known call as they were.
\<close>

lemma post_outcomes:
  assumes "ensurePersistenceReady db_query sd = (Fulfilled, s1, db1)"
  shows "(fst (post db_query secret now req sd) \<noteq> Inr (Json 200 Success)
          \<and> lastCall (fst (snd (post db_query secret now req sd))) = lastCall s1
          \<and> callHistory (fst (snd (post db_query secret now req sd))) = callHistory s1
          \<and> readyPromise (fst (snd (post db_query secret now req sd))) = Some Fulfilled)
       \<or> (\<exists>n c. readCall req = Inr (Some c)
            \<and> fst (post db_query secret now req sd) = Inr (Json 200 Success)
            \<and> lastCall (fst (snd (post db_query secret now req sd)))
                = Some (entry (string_of_nat n) now c)
            \<and> callHistory (fst (snd (post db_query secret now req sd)))
                = storeInHistory (entry (string_of_nat n) now c) (callHistory s1)
            \<and> readyPromise (fst (snd (post db_query secret now req sd))) = Some Fulfilled)"
proof -
  have r: "readyPromise s1 = Some Fulfilled"
    using assms by (cases sd) (simp add: ensure_memo)
  consider (unauth) "\<not> authorized secret req"
    | (threw) e where "authorized secret req" "readCall req = Inl e"
    | (missing) "authorized secret req" "readCall req = Inr None"
    | (failed) c err db2 where "authorized secret req" "readCall req = Inr (Some c)"
        "db_query INSERT_CALL (insertParams now c) db1 = (Inl err, db2)"
    | (inserted) c insertRes db2 where "authorized secret req" "readCall req = Inr (Some c)"
        "db_query INSERT_CALL (insertParams now c) db1 = (Inr insertRes, db2)"
  proof (cases "readCall req")
    case (Inl e)
    then show ?thesis using that by blast
  next
    case (Inr oc)
    show ?thesis
    proof (cases oc)
      case None
      with Inr show ?thesis using that by blast
    next
      case (Some c)
      show ?thesis
      proof (cases "db_query INSERT_CALL (insertParams now c) db1")
        case (Pair res db2)
        with Inr Some show ?thesis using that by (cases res) blast+
      qed
    qed
  qed
  then show ?thesis
  proof cases
    case unauth
    from post_unauthorized [OF assms unauth] r show ?thesis by simp
  next
    case threw
    from post_threw [OF assms threw] r show ?thesis
      by (simp add: after_warning_fields)
  next
    case missing
    from post_phone_missing [OF assms missing] r show ?thesis
      by (simp add: after_warning_fields)
  next
    case failed
    from post_insert_failed [OF assms failed] r show ?thesis
      by (simp add: after_warning_fields)
  next
    case inserted
    from post_inserted [OF assms inserted] inserted(2) show ?thesis by blast
  qed
qed

lemma post_not_ready:
  assumes "ensurePersistenceReady db_query sd = (Rejected err, s1, db1)"
  shows "post db_query secret now req sd = (Inr (Json 500 (Error ''server error'')), s1, db1)"
  using assms by (simp add: post_def)

lemma post_success_entry:
  assumes "fst (post db_query secret now req sd) = Inr (Json 200 Success)"
  shows "\<exists>n c. readCall req = Inr (Some c)
           \<and> lastCall (fst (snd (post db_query secret now req sd)))
               = Some (entry (string_of_nat n) now c)"
proof -
  obtain p s1 db1 where i: "ensurePersistenceReady db_query sd = (p, s1, db1)"
    by (cases "ensurePersistenceReady db_query sd") auto
  show ?thesis
  proof (cases p)
    case Fulfilled
    with i post_outcomes [of db_query sd s1 db1 secret now req] assms show ?thesis by blast
  next
    case (Rejected err)
    with i post_not_ready [of db_query sd err s1 db1 secret now req] assms show ?thesis by simp
  qed
qed

lemma post_on_ready:
  assumes "readyPromise s = Some Fulfilled"
  shows "readyPromise (fst (snd (post db_query secret now req (s, db)))) = Some Fulfilled
       \<and> (fst (post db_query secret now req (s, db)) = Inr (Json 200 Success)
            \<longrightarrow> lastCall (fst (snd (post db_query secret now req (s, db)))) \<noteq> None
               \<and> lastCall (fst (snd (post db_query secret now req (s, db))))
                   = mostRecent (callHistory (fst (snd (post db_query secret now req (s, db))))))
       \<and> (fst (post db_query secret now req (s, db)) \<noteq> Inr (Json 200 Success)
            \<longrightarrow> lastCall (fst (snd (post db_query secret now req (s, db)))) = lastCall s
               \<and> callHistory (fst (snd (post db_query secret now req (s, db)))) = callHistory s)"
proof -
  have i: "ensurePersistenceReady db_query (s, db) = (Fulfilled, s, db)"
    using assms by (rule ensure_ready)
  from post_outcomes [OF i, of secret now req] show ?thesis
    by (auto simp add: storeInHistory_front)
qed

text \<open>
  C5. When the store rejects the insert of an authorized call that has been read with a
  usable phone, the endpoint answers 500 \<open>server error\<close>, and the history ring, the
  last-known call, the registry, every sink, the timers and the id counter are what they
  were after initialization: the event is not stored, not assigned and not broadcast.
\<close>

theorem insert_failure_leaves_state:
  assumes "ensurePersistenceReady db_query sd = (Fulfilled, s1, db1)"
    and "authorized secret req"
    and "readCall req = Inr (Some c)"
    and "db_query INSERT_CALL (insertParams now c) db1 = (Inl err, db2)"
  shows "fst (post db_query secret now req sd) = Inr (Json 500 (Error ''server error''))
       \<and> callHistory (fst (snd (post db_query secret now req sd))) = callHistory s1
       \<and> lastCall (fst (snd (post db_query secret now req sd))) = lastCall s1
       \<and> listeners (fst (snd (post db_query secret now req sd))) = listeners s1
       \<and> sinks (fst (snd (post db_query secret now req sd))) = sinks s1
       \<and> timers (fst (snd (post db_query secret now req sd))) = timers s1
       \<and> sequence (fst (snd (post db_query secret now req sd))) = sequence s1"
  unfolding post_insert_failed [OF assms] by (simp add: after_warning_def)

lemma demo_init:
  "ensurePersistenceReady scripted (two_listeners, (demo_script, []))
     = (Fulfilled, demo_ready,
        ([Inl ''insert failed''], [(CREATE_TABLE, []), (SELECT_RECENT, [PNat 500])]))"
  by (simp add: ensurePersistenceReady_def scripted_def demo_script_def done_ok_def demo_ready_def
        two_listeners_def initial_def event1_def MAX_HISTORY_def row1_def)

lemma call1_phone:
  "sanitizePhone (rawPhone call1)
     = Inr \<lparr>display = ''+40712345678'', digits = ''40712345678''\<rparr>"
  by (simp add: rawPhone_def call1_def coalesce_def sanitizePhone_def trim_def isWhiteSpace_def
        isDigit_def Let_def)

lemma call1_status: "normalizeStatus (JStr ''Ringing'') = Inr ''ringing''"
  by (simp add: normalizeStatus_def STATUS_LABELS_def toLowerCase_def toLowerChar_def
        trim_def isWhiteSpace_def char_of_eq_iff)

lemma call1_body:
  "get (body call1) ''status'' = JStr ''Ringing''"
  "extension call1 = Inr None" "source call1 = Inr None" "note_text call1 = None"
  "callerName call1 = None" "personId call1 = JNull"
  by (simp_all add: call1_def extension_def source_def note_text_def callerName_def
        personId_def coalesce_def)

lemma call1_read: "readCall call1 = Inr (Some call1_fields)"
  by (simp add: readCall_def call1_phone call1_body call1_status call1_fields_def)

theorem insert_failure_leaves_state_witness:
  "fst (post scripted None 2000 call1 (two_listeners, (demo_script, [])))
     = Inr (Json 500 (Error ''server error''))
   \<and> callHistory (fst (snd (post scripted None 2000 call1 (two_listeners, (demo_script, [])))))
       = [event1]
   \<and> lastCall (fst (snd (post scripted None 2000 call1 (two_listeners, (demo_script, [])))))
       = Some event1
   \<and> out (sinks (fst (snd (post scripted None 2000 call1 (two_listeners, (demo_script, []))))) 11)
       = [RetryFrame]"
proof -
  have a: "authorized None call1" by simp
  have i: "scripted INSERT_CALL (insertParams 2000 call1_fields)
             ([Inl ''insert failed''], [(CREATE_TABLE, []), (SELECT_RECENT, [PNat 500])])
           = (Inl ''insert failed'',
              ([], [(CREATE_TABLE, []), (SELECT_RECENT, [PNat 500]),
                    (INSERT_CALL, insertParams 2000 call1_fields)]))"
    by (simp add: scripted_def)
  from insert_failure_leaves_state [OF demo_init a call1_read i]
  show ?thesis by (simp add: demo_ready_def two_listeners_def)
qed

subsection \<open>Phone extraction\<close>

text \<open>
  C1 (as amended). The phone value used is the first of the fields \<open>phone\<close>, \<open>caller\<close>,
  \<open>number\<close> that is present, that is neither \<open>null\<close> nor \<open>undefined\<close>, and the empty
  string when none is: a request answered with success has stored, as the last-known call,
  an event whose phone and digits are those of that value. A \<open>phone\<close> that is the empty
  string is therefore the value used: a ready endpoint answers an authorized request with
  400 \<open>phone missing\<close>, whatever \<open>caller\<close> and \<open>number\<close> hold.
\<close>

theorem rawPhone_first_present:
  "rawPhone req =
     (if \<not> nullish (get (body req) ''phone'') then get (body req) ''phone''
      else if \<not> nullish (get (body req) ''caller'') then get (body req) ''caller''
      else if \<not> nullish (get (body req) ''number'') then get (body req) ''number''
      else JStr [])
   \<and> (fst (post db_query secret now req sd) = Inr (Json 200 Success)
        \<longrightarrow> (\<exists>e ph. sanitizePhone (rawPhone req) = Inr ph
                 \<and> lastCall (fst (snd (post db_query secret now req sd))) = Some e
                 \<and> ev_phone e = phoneText ph
                 \<and> ev_digits e = Some (digits ph)))
   \<and> (fst (ensurePersistenceReady db_query sd) = Fulfilled \<and> authorized secret req
        \<and> get (body req) ''phone'' = JStr []
        \<longrightarrow> fst (post db_query secret now req sd) = Inr (Json 400 (Error ''phone missing'')))"
proof -
  have a: "rawPhone req =
     (if \<not> nullish (get (body req) ''phone'') then get (body req) ''phone''
      else if \<not> nullish (get (body req) ''caller'') then get (body req) ''caller''
      else if \<not> nullish (get (body req) ''number'') then get (body req) ''number''
      else JStr [])"
    by (simp add: rawPhone_def coalesce_def)
  have b: "fst (post db_query secret now req sd) = Inr (Json 400 (Error ''phone missing''))"
    if r: "fst (ensurePersistenceReady db_query sd) = Fulfilled" and u: "authorized secret req"
      and e: "get (body req) ''phone'' = JStr []"
  proof -
    obtain s1 db1 where i: "ensurePersistenceReady db_query sd = (Fulfilled, s1, db1)"
      using r by (cases "ensurePersistenceReady db_query sd") auto
    have "rawPhone req = JStr []" using e by (simp add: a)
    then have "sanitizePhone (rawPhone req) = Inr \<lparr>display = [], digits = []\<rparr>"
      by (simp add: sanitizePhone_empty)
    then have "readCall req = Inr None"
      by (rule readCall_missing) simp
    from post_phone_missing [OF i u this] show ?thesis by simp
  qed
  have c: "\<exists>e ph. sanitizePhone (rawPhone req) = Inr ph
                 \<and> lastCall (fst (snd (post db_query secret now req sd))) = Some e
                 \<and> ev_phone e = phoneText ph
                 \<and> ev_digits e = Some (digits ph)"
    if "fst (post db_query secret now req sd) = Inr (Json 200 Success)"
  proof -
    from post_success_entry [OF that] obtain n c
      where r: "readCall req = Inr (Some c)"
        and l: "lastCall (fst (snd (post db_query secret now req sd)))
               = Some (entry (string_of_nat n) now c)" by blast
    from readCall_phone [OF r] have "sanitizePhone (rawPhone req) = Inr (c_phone c)" by simp
    with l show ?thesis by (simp add: entry_def)
  qed
  from a b c show ?thesis by blast
qed

lemma fresh_init: "fst (ensurePersistenceReady scripted (initial, ([], []))) = Fulfilled"
  by (simp add: ensurePersistenceReady_def scripted_def initial_def)

theorem rawPhone_first_present_witness:
  "rawPhone caller_only_call = JStr ''0712345678''
   \<and> rawPhone empty_phone_call = JStr []
   \<and> fst (post scripted None 2000 empty_phone_call (initial, ([], [])))
       = Inr (Json 400 (Error ''phone missing''))
   \<and> fst (post scripted None 2000 caller_only_call (initial, ([], [])))
       = Inr (Json 200 Success)
   \<and> map_option ev_phone
         (lastCall (fst (snd (post scripted None 2000 caller_only_call (initial, ([], []))))))
       = Some ''0712345678''"
proof -
  have u: "authorized None empty_phone_call" by simp
  have e: "get (body empty_phone_call) ''phone'' = JStr []"
    by (simp add: empty_phone_call_def)
  have rc: "rawPhone caller_only_call = JStr ''0712345678''"
    by (simp add: rawPhone_def caller_only_call_def coalesce_def)
  have re: "rawPhone empty_phone_call = JStr []"
    by (simp add: rawPhone_def empty_phone_call_def coalesce_def)
  have p: "sanitizePhone (JStr ''0712345678'')
             = Inr \<lparr>display = ''0712345678'', digits = ''0712345678''\<rparr>"
    by (simp add: sanitizePhone_def trim_def isWhiteSpace_def isDigit_def Let_def)
  have f: "extension caller_only_call = Inr None" "source caller_only_call = Inr None"
    "normalizeStatus (get (body caller_only_call) ''status'') = Inr ''ringing''"
    by (simp_all add: caller_only_call_def extension_def source_def coalesce_def
          normalizeStatus_def)
  have rd: "\<exists>c. readCall caller_only_call = Inr (Some c)"
    by (simp add: readCall_def rc p f)
  then obtain c where rd': "readCall caller_only_call = Inr (Some c)" by blast
  have ok: "fst (post scripted None 2000 caller_only_call (initial, ([], [])))
              = Inr (Json 200 Success)"
    by (simp add: post_def ensurePersistenceReady_def scripted_def initial_def rd' Let_def
          assignId_def split: prod.splits)
  note t1 = rawPhone_first_present [of caller_only_call scripted None 2000 "(initial, ([], []))"]
  note t2 = rawPhone_first_present [of empty_phone_call scripted None 2000 "(initial, ([], []))"]
  from t1 ok obtain ev ph
    where "sanitizePhone (rawPhone caller_only_call) = Inr ph"
      and "lastCall (fst (snd (post scripted None 2000 caller_only_call (initial, ([], []))))) = Some ev"
      and "ev_phone ev = phoneText ph"
    by blast
  then have stored: "map_option ev_phone
         (lastCall (fst (snd (post scripted None 2000 caller_only_call (initial, ([], []))))))
       = Some ''0712345678''"
    by (auto simp add: rc p phoneText_def)
  from t2 fresh_init u e
  have rejected: "fst (post scripted None 2000 empty_phone_call (initial, ([], [])))
       = Inr (Json 400 (Error ''phone missing''))"
    by blast
  from rc re rejected ok stored show ?thesis by blast
qed

text \<open>
  C1 as stated fails: with \<open>phone\<close> the empty string and \<open>caller\<close> a usable number, the
  request is rejected with 400 \<open>phone missing\<close>.
\<close>

theorem empty_phone_counterexample:
  "get (body empty_phone_call) ''phone'' = JStr ''''
   \<and> get (body empty_phone_call) ''caller'' = JStr ''0712345678''
   \<and> sanitizePhone (JStr ''0712345678'')
       = Inr \<lparr>display = ''0712345678'', digits = ''0712345678''\<rparr>
   \<and> fst (post scripted None 2000 empty_phone_call (initial, ([], [])))
       = Inr (Json 400 (Error ''phone missing''))"
  by (simp add: empty_phone_call_def post_def ensurePersistenceReady_def scripted_def initial_def
        readCall_def rawPhone_def coalesce_def sanitizePhone_def trim_def isWhiteSpace_def
        isDigit_def Let_def after_warning_def)

subsection \<open>History ring\<close>

lemma storeInHistory_take:
  assumes "length h \<le> MAX_HISTORY"
  shows "storeInHistory e h = take MAX_HISTORY (e # h)"
proof (cases "length h = MAX_HISTORY")
  case True
  have "butlast (e # h) = take (length h) (e # h)"
    by (simp only: butlast_conv_take) simp
  with True show ?thesis by (simp add: storeInHistory_def Let_def)
next
  case False
  with assms have "length h < MAX_HISTORY" by simp
  then show ?thesis by (simp add: storeInHistory_def Let_def)
qed

lemma take_append_take: "take m (xs @ take m ys) = take m (xs @ ys)"
  by (simp add: min_def)

lemma fold_storeInHistory:
  "length h \<le> MAX_HISTORY \<Longrightarrow> fold storeInHistory es h = take MAX_HISTORY (rev es @ h)"
proof (induction es arbitrary: h)
  case Nil
  then show ?case by simp
next
  case (Cons e es)
  have "fold storeInHistory (e # es) h = fold storeInHistory es (take MAX_HISTORY (e # h))"
    using Cons.prems by (simp add: storeInHistory_take)
  also have "\<dots> = take MAX_HISTORY (rev es @ take MAX_HISTORY (e # h))"
    by (rule Cons.IH) simp
  also have "\<dots> = take MAX_HISTORY (rev (e # es) @ h)"
    by (simp only: take_append_take) simp
  finally show ?case .
qed

lemma post_ring_bounded:
  assumes "readyPromise s \<noteq> None" and "length (callHistory s) \<le> MAX_HISTORY"
  shows "length (callHistory (fst (snd (post db_query secret now req (s, db))))) \<le> MAX_HISTORY"
proof -
  from assms(1) obtain p where p: "readyPromise s = Some p" by blast
  show ?thesis
  proof (cases p)
    case Fulfilled
    with p have i: "ensurePersistenceReady db_query (s, db) = (Fulfilled, s, db)"
      by (simp add: ensure_ready)
    from post_outcomes [OF i, of secret now req] assms(2) show ?thesis
      by (auto simp add: storeInHistory_take)
  next
    case (Rejected err)
    with p assms(2) show ?thesis by (simp add: post_rejected)
  qed
qed

text \<open>
  C6. A ring that holds at most 500 entries holds at most 500 after any number of pushes;
  a push puts the entry in front and drops the last entry exactly when the ring was full;
  after more than 500 pushes the ring is the last 500 pushed entries, newest first, and
  when the pushed entries are distinct none of the earlier ones is in it. The ingestion
  endpoint, once the initialization has settled, keeps the ring within 500 entries.
\<close>

theorem history_ring_bounded:
  assumes "length h \<le> MAX_HISTORY"
  shows "length (storeInHistory e h) \<le> MAX_HISTORY
       \<and> storeInHistory e h = e # (if length h < MAX_HISTORY then h else butlast h)
       \<and> length (fold storeInHistory es h) \<le> MAX_HISTORY
       \<and> (MAX_HISTORY < length es \<longrightarrow>
            fold storeInHistory es h = rev (drop (length es - MAX_HISTORY) es)
            \<and> (distinct es \<longrightarrow>
                 (\<forall>x \<in> set (take (length es - MAX_HISTORY) es). x \<notin> set (fold storeInHistory es h))))
       \<and> (callHistory s = h \<and> readyPromise s \<noteq> None \<longrightarrow>
            length (callHistory (fst (snd (post db_query secret now req (s, db))))) \<le> MAX_HISTORY)"
proof -
  have a: "length (storeInHistory e h) \<le> MAX_HISTORY"
    using assms by (simp add: storeInHistory_take)
  have b: "storeInHistory e h = e # (if length h < MAX_HISTORY then h else butlast h)"
    using assms by (cases h rule: rev_cases) (auto simp add: storeInHistory_def Let_def MAX_HISTORY_def)
  have c: "length (fold storeInHistory es h) \<le> MAX_HISTORY"
    using assms by (simp add: fold_storeInHistory)
  have d: "fold storeInHistory es h = rev (drop (length es - MAX_HISTORY) es)"
    if "MAX_HISTORY < length es"
  proof -
    have "fold storeInHistory es h = take MAX_HISTORY (rev es)"
      using assms that by (simp add: fold_storeInHistory)
    also have "\<dots> = rev (drop (length es - MAX_HISTORY) es)"
      by (simp add: take_rev)
    finally show ?thesis .
  qed
  have f: "x \<notin> set (fold storeInHistory es h)"
    if "MAX_HISTORY < length es" "distinct es" "x \<in> set (take (length es - MAX_HISTORY) es)" for x
  proof -
    have "distinct (take (length es - MAX_HISTORY) es @ drop (length es - MAX_HISTORY) es)"
      using that(2) by simp
    then have "set (take (length es - MAX_HISTORY) es) \<inter> set (drop (length es - MAX_HISTORY) es) = {}"
      by (simp only: distinct_append)
    with that(3) have "x \<notin> set (drop (length es - MAX_HISTORY) es)" by blast
    then show ?thesis by (simp add: d [OF that(1)])
  qed
  have g: "length (callHistory (fst (snd (post db_query secret now req (s, db))))) \<le> MAX_HISTORY"
    if "callHistory s = h" "readyPromise s \<noteq> None"
    using post_ring_bounded [OF that(2)] that(1) assms by simp
  from a b c d f g show ?thesis by blast
qed

lemma inj_ring_event: "inj ring_event"
proof (rule injI)
  fix i j assume "ring_event i = ring_event j"
  then have "ev_received_at (ring_event i) = ev_received_at (ring_event j)" by simp
  then show "i = j" by (simp add: ring_event_def)
qed

theorem history_ring_bounded_witness:
  "length (fold storeInHistory (map ring_event [0..<501]) []) \<le> MAX_HISTORY
   \<and> fold storeInHistory (map ring_event [0..<501]) [] = rev (map ring_event [1..<501])
   \<and> ring_event 0 \<notin> set (fold storeInHistory (map ring_event [0..<501]) [])
   \<and> length (callHistory (fst (snd (post scripted None 2000 call1
                 (initial\<lparr>readyPromise := Some Fulfilled\<rparr>, ([], []))))))
       \<le> MAX_HISTORY"
proof -
  let ?es = "map ring_event [0..<501]"
  let ?s = "initial\<lparr>readyPromise := Some Fulfilled\<rparr>"
  have d: "distinct ?es"
    by (simp add: distinct_map inj_on_subset [OF inj_ring_event])
  have l: "MAX_HISTORY < length ?es"
    by (simp add: MAX_HISTORY_def)
  have n: "length ?es - MAX_HISTORY = 1"
    by (simp add: MAX_HISTORY_def)
  have t: "take 1 ?es = [ring_event 0]"
    by (simp add: take_map)
  have r: "drop 1 ?es = map ring_event [1..<501]"
    by (simp add: drop_map)
  have i: "callHistory ?s = [] \<and> readyPromise ?s \<noteq> None"
    by (simp add: initial_def)
  have "length ([] :: callEvent list) \<le> MAX_HISTORY" by simp
  from history_ring_bounded [OF this, where e = "ring_event 501" and es = ?es and s = ?s
      and db_query = scripted and secret = None and now = 2000 and req = call1
      and db = "([], [])"]
  have a: "length (fold storeInHistory ?es []) \<le> MAX_HISTORY"
    and b: "MAX_HISTORY < length ?es \<longrightarrow>
              fold storeInHistory ?es [] = rev (drop (length ?es - MAX_HISTORY) ?es)
              \<and> (distinct ?es \<longrightarrow>
                   (\<forall>x \<in> set (take (length ?es - MAX_HISTORY) ?es).
                      x \<notin> set (fold storeInHistory ?es [])))"
    and g: "callHistory ?s = [] \<and> readyPromise ?s \<noteq> None \<longrightarrow>
              length (callHistory (fst (snd (post scripted None 2000 call1 (?s, ([], []))))))
              \<le> MAX_HISTORY"
    by blast+
  from b l d have c: "fold storeInHistory ?es [] = rev (drop (length ?es - MAX_HISTORY) ?es)"
    and e: "\<forall>x \<in> set (take (length ?es - MAX_HISTORY) ?es). x \<notin> set (fold storeInHistory ?es [])"
    by blast+
  from c have c': "fold storeInHistory ?es [] = rev (map ring_event [1..<501])"
    unfolding n r .
  from e have e': "ring_event 0 \<notin> set (fold storeInHistory ?es [])"
    unfolding n t by simp
  from g i have g': "length (callHistory (fst (snd (post scripted None 2000 call1 (?s, ([], []))))))
              \<le> MAX_HISTORY"
    by blast
  from a c' e' g' show ?thesis by blast
qed

subsection \<open>The last-known call\<close>

lemma serve_on_ready:
  assumes "readyPromise s = Some Fulfilled" and "lastCall s = mostRecent (callHistory s)"
    and "serve_posts db_query secret reqs (s, db) = (resps, s2, db2)"
  shows "readyPromise s2 = Some Fulfilled \<and> lastCall s2 = mostRecent (callHistory s2)
       \<and> (lastCall s2 = None \<longleftrightarrow> lastCall s = None \<and> Inr (Json 200 Success) \<notin> set resps)"
  using assms
proof (induction reqs arbitrary: s db resps)
  case Nil
  then show ?case by simp
next
  case (Cons nr reqs)
  obtain r s' db' where p: "post db_query secret (fst nr) (snd nr) (s, db) = (r, s', db')"
    by (cases "post db_query secret (fst nr) (snd nr) (s, db)") auto
  obtain rs where q: "serve_posts db_query secret reqs (s', db') = (rs, s2, db2)"
    and e: "resps = r # rs"
    using Cons.prems(3) p by (auto split: prod.splits)
  have step: "readyPromise s' = Some Fulfilled
       \<and> (r = Inr (Json 200 Success)
            \<longrightarrow> lastCall s' \<noteq> None \<and> lastCall s' = mostRecent (callHistory s'))
       \<and> (r \<noteq> Inr (Json 200 Success)
            \<longrightarrow> lastCall s' = lastCall s \<and> callHistory s' = callHistory s)"
    using post_on_ready [OF Cons.prems(1), of db_query secret "fst nr" "snd nr" db]
    unfolding p fst_conv snd_conv .
  then have ready: "readyPromise s' = Some Fulfilled"
    and ok: "r = Inr (Json 200 Success) \<Longrightarrow> lastCall s' \<noteq> None \<and> lastCall s' = mostRecent (callHistory s')"
    and no: "r \<noteq> Inr (Json 200 Success) \<Longrightarrow> lastCall s' = lastCall s \<and> callHistory s' = callHistory s"
    by blast+
  have inv: "lastCall s' = mostRecent (callHistory s')"
    using ok no Cons.prems(2) by (cases "r = Inr (Json 200 Success)") simp_all
  from Cons.IH [OF ready inv q]
  have a: "readyPromise s2 = Some Fulfilled" and b: "lastCall s2 = mostRecent (callHistory s2)"
    and c: "lastCall s2 = None \<longleftrightarrow> lastCall s' = None \<and> Inr (Json 200 Success) \<notin> set rs"
    by blast+
  have "lastCall s2 = None \<longleftrightarrow> lastCall s = None \<and> Inr (Json 200 Success) \<notin> set resps"
  proof (cases "r = Inr (Json 200 Success)")
    case True
    with ok have "lastCall s' \<noteq> None" by blast
    with c have "lastCall s2 \<noteq> None" by blast
    moreover have "Inr (Json 200 Success) \<in> set resps" using e True by simp
    ultimately show ?thesis by blast
  next
    case False
    with no have "lastCall s' = lastCall s" by blast
    moreover have "Inr (Json 200 Success) \<notin> set resps \<longleftrightarrow> Inr (Json 200 Success) \<notin> set rs"
      using e False by auto
    ultimately show ?thesis using c by simp
  qed
  with a b show ?case by blast
qed

lemma bootstrap_fst: "fst (bootstrap rs acc) = fst acc @ map eventOfRow rs"
  by (induction rs arbitrary: acc) simp_all

lemma ensure_fresh:
  assumes "readyPromise s = None" and "lastCall s = None"
    and "ensurePersistenceReady db_query (s, db) = (Fulfilled, s1, db1)"
  shows "lastCall s1 = mostRecent (callHistory s1)
       \<and> (\<exists>created dbc selected.
             db_query CREATE_TABLE [] db = (Inr created, dbc)
             \<and> db_query SELECT_RECENT [PNat MAX_HISTORY] dbc = (Inr selected, db1)
             \<and> callHistory s1 = map eventOfRow (case rows selected of None \<Rightarrow> [] | Some rs \<Rightarrow> rs))"
proof -
  obtain c dbc where c: "db_query CREATE_TABLE [] db = (c, dbc)"
    by (cases "db_query CREATE_TABLE [] db") auto
  obtain created where c': "c = Inr created"
    using assms c by (cases c) (simp_all add: ensurePersistenceReady_def)
  obtain r db2 where r: "db_query SELECT_RECENT [PNat MAX_HISTORY] dbc = (r, db2)"
    by (cases "db_query SELECT_RECENT [PNat MAX_HISTORY] dbc") auto
  obtain selected where r': "r = Inr selected"
    using assms c c' r by (cases r) (simp_all add: ensurePersistenceReady_def)
  let ?rs = "case rows selected of None \<Rightarrow> [] | Some rs \<Rightarrow> rs"
  obtain hist seq where b: "bootstrap ?rs ([], sequence s) = (hist, seq)"
    by (cases "bootstrap ?rs ([], sequence s)") auto
  have h: "hist = map eventOfRow ?rs"
    using bootstrap_fst [of ?rs "([], sequence s)"] b by simp
  have s1: "s1 = s\<lparr>callHistory := hist, sequence := seq,
                    lastCall := (case hist of [] \<Rightarrow> lastCall s | e # es \<Rightarrow> Some e),
                    readyPromise := Some Fulfilled\<rparr>" and d: "db1 = db2"
    using assms c c' r r' b by (simp_all add: ensurePersistenceReady_def Let_def)
  have "lastCall s1 = mostRecent (callHistory s1)"
    using assms(2) by (simp add: s1 mostRecent_def split: list.splits)
  moreover have "callHistory s1 = map eventOfRow ?rs"
    by (simp add: s1 h)
  ultimately show ?thesis
    using c c' r r' d by blast
qed

lemma get_last_ready:
  "readyPromise s = Some Fulfilled \<Longrightarrow> user req \<Longrightarrow>
   get_last db_query req (s, db) = (Json 200 (Call (lastCall s)), s, db)"
  by (simp add: get_last_def ensure_ready)

lemma get_stream_ready:
  assumes "readyPromise s = Some Fulfilled" and "user req" and "\<not> failing (sinks s r)"
  shows "out (sinks (fst (snd (get_stream db_query r req (s, db)))) r)
           = out (sinks s r) @ RetryFrame # (case lastCall s of None \<Rightarrow> [] | Some e \<Rightarrow> [CallFrame e])"
  using assms
  by (simp add: get_stream_def ensure_ready res_write_def Let_def split: option.splits)

text \<open>
  C10. Start from a state in which nothing has been initialized and there is no last-known
  call, let the initialization succeed, and let the ingestion endpoint serve any list of
  requests. Then the last-known call is the front entry of the history ring, and nothing
  when the ring is empty; it is nothing exactly when the bootstrap left the ring empty
  (the rows it selected were none) and no request was answered with success; it is what
  the last-known endpoint returns, and what a new stream subscriber is sent after the
  retry hint.
\<close>

theorem lastCall_is_ring_front:
  assumes "readyPromise s = None" and "lastCall s = None"
    and "ensurePersistenceReady db_query (s, db) = (Fulfilled, s1, db1)"
    and "serve_posts db_query secret reqs (s1, db1) = (resps, s2, db2)"
  shows "lastCall s2 = mostRecent (callHistory s2)
       \<and> (lastCall s2 = None \<longleftrightarrow> callHistory s1 = [] \<and> Inr (Json 200 Success) \<notin> set resps)
       \<and> (\<exists>created dbc selected.
             db_query CREATE_TABLE [] db = (Inr created, dbc)
             \<and> db_query SELECT_RECENT [PNat MAX_HISTORY] dbc = (Inr selected, db1)
             \<and> callHistory s1 = map eventOfRow (case rows selected of None \<Rightarrow> [] | Some rs \<Rightarrow> rs))
       \<and> (user req \<longrightarrow>
             get_last db_query req (s2, db2)
               = (Json 200 (Call (mostRecent (callHistory s2))), s2, db2))
       \<and> (user req \<and> \<not> failing (sinks s2 r) \<longrightarrow>
             out (sinks (fst (snd (get_stream db_query r req (s2, db2)))) r)
               = out (sinks s2 r) @ RetryFrame #
                   (case mostRecent (callHistory s2) of None \<Rightarrow> [] | Some e \<Rightarrow> [CallFrame e]))"
proof -
  have ready1: "readyPromise s1 = Some Fulfilled"
    using assms(3) by (rule ensure_memo)
  from ensure_fresh [OF assms(1-3)]
  have inv1: "lastCall s1 = mostRecent (callHistory s1)"
    and boot: "\<exists>created dbc selected.
             db_query CREATE_TABLE [] db = (Inr created, dbc)
             \<and> db_query SELECT_RECENT [PNat MAX_HISTORY] dbc = (Inr selected, db1)
             \<and> callHistory s1 = map eventOfRow (case rows selected of None \<Rightarrow> [] | Some rs \<Rightarrow> rs)"
    by blast+
  have none1: "lastCall s1 = None \<longleftrightarrow> callHistory s1 = []"
    by (simp add: inv1 mostRecent_def split: list.splits)
  from serve_on_ready [OF ready1 inv1 assms(4)]
  have ready2: "readyPromise s2 = Some Fulfilled"
    and inv2: "lastCall s2 = mostRecent (callHistory s2)"
    and none2: "lastCall s2 = None \<longleftrightarrow> lastCall s1 = None \<and> Inr (Json 200 Success) \<notin> set resps"
    by blast+
  have a: "lastCall s2 = None \<longleftrightarrow> callHistory s1 = [] \<and> Inr (Json 200 Success) \<notin> set resps"
    using none1 none2 by simp
  have b: "get_last db_query req (s2, db2)
             = (Json 200 (Call (mostRecent (callHistory s2))), s2, db2)" if "user req"
    using get_last_ready [OF ready2 that] by (simp add: inv2)
  have c: "out (sinks (fst (snd (get_stream db_query r req (s2, db2)))) r)
               = out (sinks s2 r) @ RetryFrame #
                   (case mostRecent (callHistory s2) of None \<Rightarrow> [] | Some e \<Rightarrow> [CallFrame e])"
    if "user req" "\<not> failing (sinks s2 r)"
    using get_stream_ready [OF ready2 that] by (simp add: inv2)
  from inv2 a boot b c show ?thesis by blast
qed

lemma demo_init_ok:
  "ensurePersistenceReady scripted (two_listeners, (demo_script_ok, []))
     = (Fulfilled, demo_ready,
        ([Inr \<lparr>rows = None, insertId = Some 8\<rparr>],
         [(CREATE_TABLE, []), (SELECT_RECENT, [PNat 500])]))"
  by (simp add: ensurePersistenceReady_def scripted_def demo_script_ok_def done_ok_def demo_ready_def
        two_listeners_def initial_def event1_def MAX_HISTORY_def row1_def)

lemma demo_served_eval:
  "fst demo_served = [Inr (Json 200 Success)]
   \<and> lastCall (fst (snd demo_served)) = Some (entry ''8'' 2000 call1_fields)
   \<and> callHistory (fst (snd demo_served)) = [entry ''8'' 2000 call1_fields, event1]"
  by (simp add: demo_served_def post_def ensure_ready demo_ready_def call1_read scripted_def
        Let_def assignId_def after_warning_def broadcast_module_fields storeInHistory_def
        MAX_HISTORY_def two_listeners_def initial_def string_of_nat.simps digit_char_def)

theorem lastCall_is_ring_front_witness:
  "lastCall (fst (snd demo_served)) = mostRecent (callHistory (fst (snd demo_served)))
   \<and> lastCall (fst (snd demo_served)) = Some (entry ''8'' 2000 call1_fields)
   \<and> fst (get_last scripted (log_request (JObj [])) (snd demo_served))
       = Json 200 (Call (Some (entry ''8'' 2000 call1_fields)))"
proof -
  have n: "readyPromise two_listeners = None" "lastCall two_listeners = None"
    by (simp_all add: two_listeners_def initial_def)
  have d: "serve_posts scripted None [(2000, call1)]
             (demo_ready, ([Inr \<lparr>rows = None, insertId = Some 8\<rparr>],
                           [(CREATE_TABLE, []), (SELECT_RECENT, [PNat 500])]))
           = (fst demo_served, fst (snd demo_served), snd (snd demo_served))"
    by (simp add: demo_served_def)
  have u: "user (log_request (JObj []))" by (simp add: log_request_def)
  from lastCall_is_ring_front [OF n demo_init_ok d, of "log_request (JObj [])" 11] u
    demo_served_eval
  show ?thesis by simp
qed


end
